theory Spec2Isabelle
  imports Complex_Main "HOL-Library.Word"
begin

section \<open>Python values used by the dashboard\<close>

text \<open>
  The ledger code computes with Python \<open>float\<close>s (IEEE 754 binary64). A finite double is
  modelled by the rational number it denotes; the two zeros are identified (Python's
  \<open>==\<close> identifies them and nothing in the code below observes the sign of a zero).
\<close>

datatype pyfloat = Fin rat | PInf | NInf | NaN

datatype error = OverflowError | ValueError | TypeError | FetchError string

text \<open>A cell of the sheet, or any value handed to \<open>parse_amount_idr\<close>.\<close>

datatype cell = CNone | CBool bool | CInt int | CFloat pyfloat | CStr string

subsection \<open>Rounding to binary64\<close>

function bitlen :: "int \<Rightarrow> nat" where
  \<comment> \<open>the number of binary digits of a positive integer\<close>
  "bitlen k = (if k \<le> 0 then 0 else Suc (bitlen (k div 2)))"
  by pat_completeness auto
termination
  by (relation "measure nat") auto

declare bitlen.simps [simp del]

definition pow2 :: "int \<Rightarrow> rat" where
  "pow2 k = (if 0 \<le> k then of_int (2 ^ nat k) else 1 / of_int (2 ^ nat (- k)))"

definition ilog2 :: "rat \<Rightarrow> int" where
  \<comment> \<open>\<open>\<lfloor>log\<^sub>2 q\<rfloor>\<close> for \<open>q > 0\<close>\<close>
  "ilog2 q = (if 1 \<le> q then int (bitlen \<lfloor>q\<rfloor>) - 1
              else - int (bitlen (\<lceil>1 / q\<rceil> - 1)))"

definition round_half_even :: "rat \<Rightarrow> int" where
  "round_half_even q =
     (let f = \<lfloor>q\<rfloor>; d = q - of_int f
      in if d < 1 / 2 then f else if 1 / 2 < d then f + 1
         else if even f then f else f + 1)"

definition double_of_rat :: "rat \<Rightarrow> pyfloat" where
  \<comment> \<open>round to nearest, ties to even, 53 bits of precision, exponent range of binary64\<close>
  "double_of_rat q =
     (if q = 0 then Fin 0
      else let e = max (ilog2 \<bar>q\<bar>) (- 1022);
               u = pow2 (e - 52);
               r = of_int (round_half_even (q / u)) * u
           in if pow2 1024 \<le> \<bar>r\<bar> then (if 0 < q then PInf else NInf) else Fin r)"

subsection \<open>Float operations\<close>

definition fneg :: "pyfloat \<Rightarrow> pyfloat" where
  "fneg x = (case x of Fin q \<Rightarrow> Fin (- q) | PInf \<Rightarrow> NInf | NInf \<Rightarrow> PInf | NaN \<Rightarrow> NaN)"

fun fadd :: "pyfloat \<Rightarrow> pyfloat \<Rightarrow> pyfloat" where
  "fadd (Fin a) (Fin b) = double_of_rat (a + b)"
| "fadd NaN _ = NaN"
| "fadd _ NaN = NaN"
| "fadd PInf NInf = NaN"
| "fadd NInf PInf = NaN"
| "fadd PInf _ = PInf"
| "fadd _ PInf = PInf"
| "fadd NInf _ = NInf"
| "fadd _ NInf = NInf"

definition fsub :: "pyfloat \<Rightarrow> pyfloat \<Rightarrow> pyfloat" where
  "fsub x y = fadd x (fneg y)"

definition fabs :: "pyfloat \<Rightarrow> pyfloat" where
  "fabs x = (case x of Fin q \<Rightarrow> Fin \<bar>q\<bar> | PInf \<Rightarrow> PInf | NInf \<Rightarrow> PInf | NaN \<Rightarrow> NaN)"

fun fgt :: "pyfloat \<Rightarrow> pyfloat \<Rightarrow> bool" where
  \<comment> \<open>\<open>x > y\<close>; every comparison with NaN is false\<close>
  "fgt NaN _ = False"
| "fgt _ NaN = False"
| "fgt (Fin a) (Fin b) = (b < a)"
| "fgt PInf PInf = False"
| "fgt PInf _ = True"
| "fgt _ PInf = False"
| "fgt NInf _ = False"
| "fgt _ NInf = True"

definition notna :: "pyfloat \<Rightarrow> bool" where
  \<comment> \<open>\<open>pd.notna\<close> on a float\<close>
  "notna x = (x \<noteq> NaN)"

definition py_round :: "pyfloat \<Rightarrow> error + int" where
  \<comment> \<open>\<open>round(val)\<close> with one argument: an \<open>int\<close>, ties to even\<close>
  "py_round x = (case x of Fin q \<Rightarrow> Inr (round_half_even q)
                 | PInf \<Rightarrow> Inl OverflowError | NInf \<Rightarrow> Inl OverflowError
                 | NaN \<Rightarrow> Inl ValueError)"

definition py_round_nd :: "pyfloat \<Rightarrow> nat \<Rightarrow> pyfloat" where
  \<comment> \<open>\<open>round(val, n)\<close>: a float\<close>
  "py_round_nd x n = (case x of Fin q \<Rightarrow> double_of_rat (of_int (round_half_even (q * 10 ^ n)) / 10 ^ n)
                      | _ \<Rightarrow> x)"

definition float_of_int :: "int \<Rightarrow> error + pyfloat" where
  \<comment> \<open>\<open>float(i)\<close> for an \<open>int\<close>\<close>
  "float_of_int i = (case double_of_rat (of_int i) of Fin r \<Rightarrow> Inr (Fin r)
                     | _ \<Rightarrow> Inl OverflowError)"

subsection \<open>Strings\<close>

text \<open>
  A Python string is modelled as a \<open>char list\<close> whose characters are the code points 0 to
  255 (ASCII and the Latin-1 supplement). The character classes and the case mapping below
  are Python's on all of these code points.
\<close>

definition py_isspace :: "char \<Rightarrow> bool" where
  \<comment> \<open>the characters that \<open>str.strip()\<close> removes: the ASCII blanks and separators, NEL
      (\<open>U+0085\<close>) and the no-break space (\<open>U+00A0\<close>)\<close>
  "py_isspace c = (c \<in> set [CHR 0x09, CHR 0x0A, CHR 0x0B, CHR 0x0C, CHR 0x0D,
                              CHR 0x1C, CHR 0x1D, CHR 0x1E, CHR 0x1F, CHR 0x20,
                              CHR 0x85, CHR 0xA0])"

definition py_strip :: "string \<Rightarrow> string" where
  "py_strip s = rev (dropWhile py_isspace (rev (dropWhile py_isspace s)))"

definition digit_chars :: "string" where
  "digit_chars = ''0123456789''"

definition is_decimal :: "char \<Rightarrow> bool" where
  \<comment> \<open>the decimal digits, which \<open>int\<close> and \<open>float\<close> read\<close>
  "is_decimal c = (c \<in> set digit_chars)"

definition py_isdigit :: "char \<Rightarrow> bool" where
  \<comment> \<open>\<open>ch.isdigit()\<close>: the decimal digits and the superscripts two, three and one
      (\<open>U+00B2\<close>, \<open>U+00B3\<close>, \<open>U+00B9\<close>)\<close>
  "py_isdigit c = (is_decimal c \<or> c \<in> set [CHR 0xB2, CHR 0xB3, CHR 0xB9])"

definition str_isdigit :: "string \<Rightarrow> bool" where
  \<comment> \<open>\<open>s.isdigit()\<close>: non-empty and all digits\<close>
  "str_isdigit s = (s \<noteq> [] \<and> list_all py_isdigit s)"

text \<open>
  \<open>str.upper()\<close> leaves the range of these code points (the micro sign becomes \<open>U+039C\<close>,
  \<open>y\<close> with diaeresis becomes \<open>U+0178\<close>) and can lengthen the text (sharp s becomes \<open>SS\<close>),
  so its result is a list of code points.
\<close>

definition code_points :: "string \<Rightarrow> nat list" where
  "code_points s = map of_char s"

definition upper_char :: "char \<Rightarrow> nat list" where
  "upper_char c =
     (let n = (of_char c :: nat)
      in if 97 \<le> n \<and> n \<le> 122 then [n - 32]
         else if n = 181 then [924]
         else if n = 223 then [83, 83]
         else if 224 \<le> n \<and> n \<le> 254 \<and> n \<noteq> 247 then [n - 32]
         else if n = 255 then [376]
         else [n])"

definition py_upper :: "string \<Rightarrow> nat list" where
  "py_upper s = concat (map upper_char s)"

function py_replace :: "string \<Rightarrow> string \<Rightarrow> string \<Rightarrow> string" where
  \<comment> \<open>\<open>s.replace(old, new)\<close> for a non-empty \<open>old\<close>: leftmost occurrences, not overlapping\<close>
  "py_replace old new s =
     (if old = [] \<or> s = [] then s
      else if take (length old) s = old
           then new @ py_replace old new (drop (length old) s)
           else hd s # py_replace old new (tl s))"
  by pat_completeness auto
termination
  by (relation "measure (\<lambda>(old, new, s). length s)") auto

declare py_replace.simps [simp del]

fun py_split :: "char \<Rightarrow> string \<Rightarrow> string list" where
  \<comment> \<open>\<open>s.split(c)\<close>\<close>
  "py_split c [] = [[]]"
| "py_split c (x # xs) =
     (if x = c then [] # py_split c xs
      else (case py_split c xs of p # ps \<Rightarrow> (x # p) # ps | [] \<Rightarrow> [[x]]))"

fun rfind_from :: "char \<Rightarrow> nat \<Rightarrow> string \<Rightarrow> int \<Rightarrow> int" where
  "rfind_from c i [] found = found"
| "rfind_from c i (x # xs) found = rfind_from c (Suc i) xs (if x = c then int i else found)"

definition py_rfind :: "string \<Rightarrow> char \<Rightarrow> int" where
  \<comment> \<open>\<open>s.rfind(c)\<close>: the last index of \<open>c\<close>, or \<open>-1\<close>\<close>
  "py_rfind s c = rfind_from c 0 s (- 1)"

fun digits_value :: "string \<Rightarrow> int \<Rightarrow> int" where
  \<comment> \<open>the number a string of decimal digits denotes\<close>
  "digits_value [] acc = acc"
| "digits_value (c # cs) acc = digits_value cs (10 * acc + (of_char c - 48))"

definition float_of_unsigned :: "string \<Rightarrow> pyfloat option" where
  "float_of_unsigned s =
     (let ip = takeWhile is_decimal s; rest = dropWhile is_decimal s
      in if rest = [] then
           (if ip = [] then None else Some (double_of_rat (of_int (digits_value ip 0))))
         else if hd rest = CHR ''.'' \<and> list_all is_decimal (tl rest) \<and> (ip \<noteq> [] \<or> tl rest \<noteq> [])
           then Some (double_of_rat (of_int (digits_value (ip @ tl rest) 0) / 10 ^ length (tl rest)))
         else None)"

definition float_of_str :: "string \<Rightarrow> pyfloat option" where
  \<comment> \<open>\<open>float(s)\<close> on the alphabet that \<open>_only_digits\<close> leaves (the characters of \<open>isdigit\<close>,
      \<open>.\<close>, \<open>-\<close>, parentheses): an optional sign, then decimal digits with at most one point;
      \<open>None\<close> is \<open>ValueError\<close>, which a superscript digit raises. A value too large for a
      double is \<open>inf\<close>, not an error.\<close>
  "float_of_str s =
     (case s of
        [] \<Rightarrow> None
      | c # cs \<Rightarrow> if c = CHR ''-'' then map_option fneg (float_of_unsigned cs)
                  else float_of_unsigned s)"

section \<open>Amount normalisation: \<open>parse_amount_idr\<close>\<close>

definition idr_decimals :: nat where
  \<comment> \<open>\<open>CONFIG['idr_decimals']\<close>\<close>
  "idr_decimals = 0"

definition only_digits :: "string \<Rightarrow> string" where
  \<comment> \<open>\<open>_only_digits\<close>\<close>
  "only_digits s = filter (\<lambda>ch. py_isdigit ch \<or> ch \<in> set '',.-()'') s"

definition separators :: "string \<Rightarrow> string" where
  \<comment> \<open>lines 110 to 125 of \<open>parse_amount_idr\<close>: the decimal and thousands separators\<close>
  "separators s =
     (if CHR '','' \<in> set s \<and> CHR ''.'' \<in> set s then
        (if py_rfind s (CHR '','') > py_rfind s (CHR ''.'')
         then py_replace '','' ''.'' (py_replace ''.'' [] s)
         else py_replace '','' [] s)
      else if CHR '','' \<in> set s \<and> CHR ''.'' \<notin> set s then
        (let parts = py_split (CHR '','') s
         in if length parts = 2 \<and> str_isdigit (parts ! 1)
            then py_replace '','' ''.'' (py_replace ''.'' [] s)
            else py_replace '','' [] s)
      else if CHR ''.'' \<in> set s \<and> CHR '','' \<notin> set s then
        (let parts = py_split (CHR ''.'') s
         in if length parts > 1 \<and> list_all (\<lambda>p. length p = 3) (tl parts)
            then py_replace ''.'' [] s
            else s)
      else s)"

definition round_amount :: "pyfloat \<Rightarrow> error + pyfloat" where
  \<comment> \<open>\<open>float(int(round(val))) if CONFIG['idr_decimals'] == 0 else round(val, CONFIG['idr_decimals'])\<close>\<close>
  "round_amount val =
     (if idr_decimals = 0
      then (case py_round val of Inl e \<Rightarrow> Inl e | Inr i \<Rightarrow> float_of_int i)
      else Inr (py_round_nd val idr_decimals))"

definition strip_tokens :: "string \<Rightarrow> string" where
  \<comment> \<open>\<open>for token in ["Rp", "rp", "IDR", "idr", " "]: s = s.replace(token, "")\<close>\<close>
  "strip_tokens s = fold (\<lambda>token s. py_replace token [] s) [''Rp'', ''rp'', ''IDR'', ''idr'', '' ''] s"

definition parse_text :: "string \<Rightarrow> error + pyfloat" where
  "parse_text t =
     (let s = py_strip t in
      if s = [] then Inr (Fin 0)
      else
        let s = only_digits (strip_tokens s);
            neg = (s \<noteq> [] \<and> hd s = CHR ''('' \<and> last s = CHR '')'');
            s = (if neg then butlast (tl s) else s);
            s = separators s;
            val = (case float_of_str s of None \<Rightarrow> Fin 0 | Some v \<Rightarrow> v);
            val = (if neg then fneg val else val)
        in round_amount val)"

definition parse_amount_idr :: "cell \<Rightarrow> error + pyfloat" where
  "parse_amount_idr s =
     (case s of
        CNone \<Rightarrow> Inr (Fin 0)
      | CBool b \<Rightarrow> round_amount (Fin (if b then 1 else 0))
      | CInt i \<Rightarrow> (case float_of_int i of Inl e \<Rightarrow> Inl e | Inr val \<Rightarrow> round_amount val)
      | CFloat val \<Rightarrow> round_amount val
      | CStr t \<Rightarrow> parse_text t)"

text \<open>The comma rule and the rounding mode as the specification words them.\<close>

definition two_digits_after_comma :: "string \<Rightarrow> bool" where
  \<comment> \<open>"exactly two digits follow" the comma\<close>
  "two_digits_after_comma s =
     (let t = tl (dropWhile (\<lambda>c. c \<noteq> CHR '','') s) in length t = 2 \<and> list_all py_isdigit t)"

definition spec_comma_rule :: "string \<Rightarrow> string" where
  \<comment> \<open>"if only \<open>,\<close> occurs and exactly two digits follow it, treat it as decimal; otherwise
      treat every \<open>,\<close> as a thousands separator and remove it"\<close>
  "spec_comma_rule s =
     (if two_digits_after_comma s then map (\<lambda>c. if c = CHR '','' then CHR ''.'' else c) s
      else filter (\<lambda>c. c \<noteq> CHR '','') s)"


section \<open>The ledger frame\<close>

text \<open>
  \<open>BANK_LIST\<close> is a fixed list of eleven names that key the running-balance dictionary and
  name the balance columns. The accounts are a datatype, \<open>bank_name\<close> gives the name the
  source uses, and \<open>BANK_LIST\<close> is the list of these names in the source's order.
\<close>

datatype account = BCA | Mandiri | BNI | BRI | Cimb_Niaga | BTN | Danamon | DANA | OVO | GOPAY | LINK_AJA

definition accounts :: "account list" where
  "accounts = [BCA, Mandiri, BNI, BRI, Cimb_Niaga, BTN, Danamon, DANA, OVO, GOPAY, LINK_AJA]"

fun bank_name :: "account \<Rightarrow> string" where
  "bank_name BCA = ''BCA''"
| "bank_name Mandiri = ''Mandiri''"
| "bank_name BNI = ''BNI''"
| "bank_name BRI = ''BRI''"
| "bank_name Cimb_Niaga = ''Cimb Niaga''"
| "bank_name BTN = ''BTN''"
| "bank_name Danamon = ''Danamon''"
| "bank_name DANA = ''DANA''"
| "bank_name OVO = ''OVO''"
| "bank_name GOPAY = ''GOPAY''"
| "bank_name LINK_AJA = ''LINK AJA''"

definition BANK_LIST :: "string list" where
  "BANK_LIST = map bank_name accounts"

definition HEADERS :: "string list" where
  "HEADERS = [''No.'', ''Tanggal'', ''User ID'', ''Bank/EWallet'', ''Keterangan'',
              ''Credit'', ''Debit'', ''Saldo Akhir''] @ BANK_LIST"

definition account_of :: "string \<Rightarrow> account option" where
  \<comment> \<open>\<open>bank in BANK_LIST\<close>, with the key it denotes\<close>
  "account_of bank = find (\<lambda>b. bank_name b = bank) accounts"

text \<open>
  A row of the frame that \<open>get_all_data\<close> and \<open>check_parity_against_api\<close> build with
  \<open>pd.DataFrame(rows, columns=HEADERS)\<close>: the money columns hold the floats that
  \<open>parse_amount_idr\<close> returned, the other columns hold the cells as fetched. \<open>Bal r b\<close> is
  the column named \<open>bank_name b\<close>.
\<close>

record txrow =
  No :: cell
  Tanggal :: cell
  User_ID :: cell
  Bank_EWallet :: cell
  Keterangan :: cell
  Credit :: pyfloat
  Debit :: pyfloat
  Saldo_Akhir :: pyfloat
  Bal :: "account \<Rightarrow> pyfloat"

function show_nat :: "nat \<Rightarrow> string" where
  "show_nat n = (if n < 10 then [char_of (48 + n)] else show_nat (n div 10) @ [char_of (48 + n mod 10)])"
  by pat_completeness auto
termination
  by (relation "measure id") auto

declare show_nat.simps [simp del]

definition show_int :: "int \<Rightarrow> string" where
  "show_int i = (if i < 0 then CHR ''-'' # show_nat (nat (- i)) else show_nat (nat i))"

fun py_str :: "cell \<Rightarrow> string option" where
  \<comment> \<open>\<open>str(v)\<close>. The \<open>repr\<close> of a float is not modelled (\<open>None\<close>): it is a decimal numeral,
      \<open>inf\<close> or \<open>nan\<close>, never one of the names it is compared with below.\<close>
  "py_str (CStr s) = Some s"
| "py_str CNone = Some ''None''"
| "py_str (CBool b) = Some (if b then ''True'' else ''False'')"
| "py_str (CInt i) = Some (show_int i)"
| "py_str (CFloat f) = None"

section \<open>The recompute core: \<open>recompute_all_balances\<close>\<close>

definition float_or_zero :: "pyfloat \<Rightarrow> pyfloat" where
  \<comment> \<open>\<open>float(v or 0)\<close>: zero is falsy, every other float (NaN too) is truthy\<close>
  "float_or_zero v = (if v = Fin 0 then Fin 0 else v)"

definition row_bank :: "txrow \<Rightarrow> string option" where
  \<comment> \<open>\<open>bank = str(r.get("Bank/EWallet", "")).strip()\<close>\<close>
  "row_bank r = map_option py_strip (py_str (Bank_EWallet r))"

definition row_user :: "txrow \<Rightarrow> nat list option" where
  \<comment> \<open>\<open>user = str(r.get("User ID", "")).strip().upper()\<close>\<close>
  "row_user r = map_option (\<lambda>s. py_upper (py_strip s)) (py_str (User_ID r))"

definition is_system_init :: "txrow \<Rightarrow> bool" where
  \<comment> \<open>\<open>user == "SYSTEM" and bank.upper() == "SALDO AWAL"\<close>\<close>
  "is_system_init r = (row_user r = Some (code_points ''SYSTEM'')
                       \<and> map_option py_upper (row_bank r) = Some (code_points ''SALDO AWAL''))"

definition row_account :: "txrow \<Rightarrow> account option" where
  \<comment> \<open>the key of \<open>running\<close> that \<open>bank\<close> is, when \<open>bank in BANK_LIST\<close>\<close>
  "row_account r = (case row_bank r of None \<Rightarrow> None | Some bank \<Rightarrow> account_of bank)"

definition running0 :: "account \<Rightarrow> pyfloat" where
  \<comment> \<open>\<open>running = {b: 0.0 for b in BANK_LIST}\<close>\<close>
  "running0 = (\<lambda>b. Fin 0)"

definition step :: "(account \<Rightarrow> pyfloat) \<Rightarrow> txrow \<Rightarrow> (account \<Rightarrow> pyfloat)" where
  \<comment> \<open>lines 351 to 362: the update of \<open>running\<close> by one row\<close>
  "step running r =
     (let credit = float_or_zero (Credit r);
          debit = float_or_zero (Debit r)
      in if is_system_init r
         then fold (\<lambda>b run. run(b := (let val = Bal r b in if notna val then val else Fin 0)))
                accounts running
         else (case row_account r of
                 Some bank \<Rightarrow> running(bank := fadd (running bank) (fsub credit debit))
               | None \<Rightarrow> running))"

definition py_sum :: "pyfloat list \<Rightarrow> pyfloat" where
  \<comment> \<open>\<open>sum(xs)\<close>: from the left, starting at \<open>0\<close>\<close>
  "py_sum xs = foldl fadd (Fin 0) xs"

definition emit :: "(account \<Rightarrow> pyfloat) \<Rightarrow> txrow \<Rightarrow> txrow" where
  \<comment> \<open>lines 363 to 365: \<open>running.values()\<close> lists the balances in the order of \<open>BANK_LIST\<close>\<close>
  "emit running r =
     (fold (\<lambda>b r. r\<lparr>Bal := (Bal r)(b := running b)\<rparr>) accounts r)
       \<lparr>Saldo_Akhir := py_sum (map running accounts)\<rparr>"

fun recompute_loop :: "(account \<Rightarrow> pyfloat) \<Rightarrow> txrow list \<Rightarrow> txrow list" where
  "recompute_loop running [] = []"
| "recompute_loop running (r # rs) =
     (let running = step running r in emit running r # recompute_loop running rs)"

definition recompute_all_balances :: "txrow list \<Rightarrow> txrow list" where
  \<comment> \<open>every balance column is a column of the frame, so lines 344 to 346 add none\<close>
  "recompute_all_balances df = recompute_loop running0 df"

definition renumber :: "txrow list \<Rightarrow> txrow list" where
  \<comment> \<open>\<open>df["No."] = range(1, len(df) + 1)\<close>\<close>
  "renumber df = map (\<lambda>(i, r). r\<lparr>No := CInt (int i + 1)\<rparr>) (enumerate 0 df)"

section \<open>Decoding the fetched grid\<close>

text \<open>
  The grid is what \<open>_get_all_values_unformatted\<close> returns: the header row, then the data
  rows, each a list of cells.
\<close>

type_synonym grid = "cell list list"

definition bind :: "error + 'a \<Rightarrow> ('a \<Rightarrow> error + 'b) \<Rightarrow> error + 'b" where
  \<comment> \<open>an exception of the first computation ends the whole\<close>
  "bind m f = (case m of Inl e \<Rightarrow> Inl e | Inr x \<Rightarrow> f x)"

definition idx_get :: "cell list \<Rightarrow> string \<Rightarrow> nat option" where
  \<comment> \<open>\<open>idx = {h: i for i, h in enumerate(header)}\<close>: the last position of a name\<close>
  "idx_get header name =
     (case filter (\<lambda>i. header ! i = CStr name) (rev [0..<length header]) of
        [] \<Rightarrow> None | i # _ \<Rightarrow> Some i)"

definition cell_at :: "cell list \<Rightarrow> cell list \<Rightarrow> string \<Rightarrow> cell option" where
  \<comment> \<open>\<open>r[idx[name]]\<close> under \<open>name in idx and idx[name] < len(r)\<close>\<close>
  "cell_at header r name =
     (case idx_get header name of
        Some i \<Rightarrow> if i < length r then Some (r ! i) else None
      | None \<Rightarrow> None)"

definition get_cell :: "cell list \<Rightarrow> cell list \<Rightarrow> string \<Rightarrow> cell" where
  \<comment> \<open>a balance column may be headed \<open>Saldo Akhir <name>\<close>; the default is the empty text\<close>
  "get_cell header r name =
     (case cell_at header r name of
        Some v \<Rightarrow> v
      | None \<Rightarrow>
          if name \<in> set BANK_LIST
          then (case cell_at header r (''Saldo Akhir '' @ name) of Some v \<Rightarrow> v | None \<Rightarrow> CStr [])
          else CStr [])"

definition py_int :: "pyfloat \<Rightarrow> error + int" where
  \<comment> \<open>\<open>int(x)\<close> for a float: towards zero\<close>
  "py_int x = (case x of Fin q \<Rightarrow> Inr (if 0 \<le> q then \<lfloor>q\<rfloor> else \<lceil>q\<rceil>)
               | PInf \<Rightarrow> Inl OverflowError | NInf \<Rightarrow> Inl OverflowError
               | NaN \<Rightarrow> Inl ValueError)"

definition int_of_str :: "string \<Rightarrow> int option" where
  \<comment> \<open>\<open>int(s)\<close>: blanks around, a sign, digits with single underscores between them\<close>
  "int_of_str s =
     (let t = py_strip s;
          neg = (t \<noteq> [] \<and> hd t = CHR ''-'');
          b = (if t \<noteq> [] \<and> hd t \<in> set ''+-'' then tl t else t)
      in if b \<noteq> [] \<and> list_all (\<lambda>c. is_decimal c \<or> c = CHR ''_'') b
            \<and> hd b \<noteq> CHR ''_'' \<and> last b \<noteq> CHR ''_''
            \<and> list_all (\<lambda>(x, y). \<not> (x = CHR ''_'' \<and> y = CHR ''_'')) (zip b (tl b))
         then (let v = digits_value (filter is_decimal b) 0 in Some (if neg then - v else v))
         else None)"

definition coerce_no :: "cell \<Rightarrow> int" where
  \<comment> \<open>\<open>int(item.get("No.", 0) or 0)\<close>, and \<open>0\<close> on any exception\<close>
  "coerce_no v =
     (case v of
        CNone \<Rightarrow> 0
      | CBool b \<Rightarrow> (if b then 1 else 0)
      | CInt i \<Rightarrow> i
      | CFloat f \<Rightarrow> (if f = Fin 0 then 0 else (case py_int f of Inl e \<Rightarrow> 0 | Inr i \<Rightarrow> i))
      | CStr s \<Rightarrow> (if s = [] then 0 else (case int_of_str s of None \<Rightarrow> 0 | Some i \<Rightarrow> i)))"

fun parse_banks :: "cell list \<Rightarrow> cell list \<Rightarrow> account list \<Rightarrow> (account \<Rightarrow> pyfloat)
                      \<Rightarrow> error + (account \<Rightarrow> pyfloat)" where
  "parse_banks header r [] bal = Inr bal"
| "parse_banks header r (b # bs) bal =
     bind (parse_amount_idr (get_cell header r (bank_name b)))
       (\<lambda>v. parse_banks header r bs (bal(b := v)))"

definition decode_row :: "cell list \<Rightarrow> cell list \<Rightarrow> error + txrow" where
  \<comment> \<open>\<open>for h in HEADERS: item[h] = parse_amount_idr(v) if h in MONEY_COLS else v\<close>\<close>
  "decode_row header r =
     bind (parse_amount_idr (get_cell header r ''Credit'')) (\<lambda>credit.
     bind (parse_amount_idr (get_cell header r ''Debit'')) (\<lambda>debit.
     bind (parse_amount_idr (get_cell header r ''Saldo Akhir'')) (\<lambda>saldo.
     bind (parse_banks header r accounts running0) (\<lambda>bal.
       Inr \<lparr>No = CInt (coerce_no (get_cell header r ''No.'')),
            Tanggal = get_cell header r ''Tanggal'',
            User_ID = get_cell header r ''User ID'',
            Bank_EWallet = get_cell header r ''Bank/EWallet'',
            Keterangan = get_cell header r ''Keterangan'',
            Credit = credit, Debit = debit, Saldo_Akhir = saldo, Bal = bal\<rparr>))))"

fun decode_rows :: "cell list \<Rightarrow> grid \<Rightarrow> error + txrow list" where
  "decode_rows header [] = Inr []"
| "decode_rows header (r # rows) =
     bind (decode_row header r) (\<lambda>item. bind (decode_rows header rows) (\<lambda>items. Inr (item # items)))"

section \<open>The checksum: \<open>_compute_checksum\<close>\<close>

text \<open>
  \<open>json.dumps\<close> followed by the UTF-8 encoding, and \<open>hashlib.sha1\<close>, are library functions:
  they are parameters, \<open>dumps\<close> from grids to bytes and \<open>sha1\<close> from bytes to a digest of 160
  bits. \<open>hexdigest\<close> writes the digest as 40 hexadecimal digits.
\<close>

definition hexdigest :: "160 word \<Rightarrow> string" where
  "hexdigest w = map (\<lambda>i. ''0123456789abcdef'' ! unat (take_bit 4 (drop_bit (4 * (39 - i)) w))) [0..<40]"


section \<open>The parity check: \<open>check_parity_against_api\<close>\<close>

datatype verdict = Unknown | OK | Drift

text \<open>
  The lines of the diff list, one constructor for each message the source formats:
  the row counts, \<open>Total Credit berbeda\<close>, \<open>Total Debit berbeda\<close>, the last
  \<open>Saldo Akhir\<close> and the last balance of a bank, with the numbers they print.
\<close>

datatype diff_line =
    RowCount nat nat
  | TotalCredit
  | TotalDebit
  | LastSaldo int int
  | LastBank account int int

datatype details = NoDetails | Diffs "diff_line list" | AllMatch | Failure error

record parity =
  parity_state :: verdict
  parity_details_last :: details

definition tolerance :: pyfloat where
  \<comment> \<open>the literal \<open>1e-6\<close>\<close>
  "tolerance = double_of_rat (1 / 1000000)"

definition differs :: "pyfloat \<Rightarrow> pyfloat \<Rightarrow> bool" where
  \<comment> \<open>\<open>abs(float(a) - float(b)) > 1e-6\<close>\<close>
  "differs a b = fgt (fabs (fsub a b)) tolerance"

text \<open>
  \<open>df[col].sum()\<close> on a float column: pandas puts zero in the place of each NaN and calls
  the sum of numpy, which adds pairwise. Fewer than eight numbers are added from the left.
  Up to 128 numbers are added in eight interleaved partial sums (\<open>r[j] += a[i + j]\<close>, eight
  at a time), the partial sums are combined as
  \<open>((r0 + r1) + (r2 + r3)) + ((r4 + r5) + (r6 + r7))\<close> and the numbers left over, fewer than
  eight, are added to the result one by one. A longer column is cut in two, at half its
  length rounded down to a multiple of eight, and the sums of the halves are added.
\<close>

function unrolled :: "pyfloat list \<Rightarrow> pyfloat list \<Rightarrow> pyfloat list \<times> pyfloat list" where
  \<comment> \<open>the loop over blocks of eight; returns the partial sums and the numbers left over\<close>
  "unrolled r a =
     (if length a < 8 then (r, a)
      else unrolled (map (\<lambda>(x, y). fadd x y) (zip r (take 8 a))) (drop 8 a))"
  by pat_completeness auto
termination
  by (relation "measure (\<lambda>(r, a). length a)") auto

declare unrolled.simps [simp del]

definition split_point :: "nat \<Rightarrow> nat" where
  \<comment> \<open>\<open>n2 = n / 2; n2 -= n2 % 8\<close>\<close>
  "split_point n = n div 2 - (n div 2) mod 8"

function pairwise_sum :: "pyfloat list \<Rightarrow> pyfloat" where
  "pairwise_sum a =
     (if length a < 8 then foldl fadd (Fin 0) a
      else if length a \<le> 128 then
        (case unrolled (take 8 a) (drop 8 a) of
           (r, rest) \<Rightarrow>
             foldl fadd
               (fadd (fadd (fadd (r ! 0) (r ! 1)) (fadd (r ! 2) (r ! 3)))
                     (fadd (fadd (r ! 4) (r ! 5)) (fadd (r ! 6) (r ! 7))))
               rest)
      else fadd (pairwise_sum (take (split_point (length a)) a))
                (pairwise_sum (drop (split_point (length a)) a)))"
  by pat_completeness auto
termination
proof (relation "measure length")
  show "wf (measure length)" by simp
next
  fix a :: "pyfloat list"
  assume "\<not> length a < 8" "\<not> length a \<le> 128"
  then show "(take (split_point (length a)) a, a) \<in> measure length"
    by (simp add: split_point_def)
next
  fix a :: "pyfloat list"
  assume "\<not> length a < 8" "\<not> length a \<le> 128"
  then have "0 < split_point (length a)"
    unfolding split_point_def by linarith
  then show "(drop (split_point (length a)) a, a) \<in> measure length"
    using \<open>\<not> length a < 8\<close> by simp
qed

declare pairwise_sum.simps [simp del]

definition col_sum :: "pyfloat list \<Rightarrow> pyfloat" where
  \<comment> \<open>the reduction starts from zero; the sum of an empty or all-NaN column is zero\<close>
  "col_sum xs = fadd (Fin 0) (pairwise_sum (map (\<lambda>v. if notna v then v else Fin 0) xs))"

definition render2 :: "(int \<Rightarrow> int \<Rightarrow> diff_line) \<Rightarrow> pyfloat \<Rightarrow> pyfloat \<Rightarrow> error + diff_line list" where
  \<comment> \<open>a message with \<open>int(a)\<close> and \<open>int(b)\<close> in it\<close>
  "render2 line a b = bind (py_int a) (\<lambda>i. bind (py_int b) (\<lambda>j. Inr [line i j]))"

fun bank_diffs :: "account list \<Rightarrow> txrow \<Rightarrow> txrow \<Rightarrow> error + diff_line list" where
  "bank_diffs [] last_api last_ui = Inr []"
| "bank_diffs (b # bs) last_api last_ui =
     bind (if differs (Bal last_api b) (Bal last_ui b)
           then render2 (LastBank b) (Bal last_api b) (Bal last_ui b) else Inr [])
       (\<lambda>d. bind (bank_diffs bs last_api last_ui) (\<lambda>ds. Inr (d @ ds)))"

definition parity_diffs :: "txrow list \<Rightarrow> txrow list \<Rightarrow> error + diff_line list" where
  \<comment> \<open>lines 952 to 966: \<open>df_raw\<close> is the fresh snapshot, \<open>data\<close> the cached one\<close>
  "parity_diffs df_raw data =
     (let d0 = (if length df_raw \<noteq> length data
                then [RowCount (length df_raw) (length data)] else [])
      in if df_raw \<noteq> [] \<and> data \<noteq> [] then
           (let last_api = last df_raw; last_ui = last data;
                d1 = (if differs (col_sum (map Credit df_raw)) (col_sum (map Credit data))
                      then [TotalCredit] else []);
                d2 = (if differs (col_sum (map Debit df_raw)) (col_sum (map Debit data))
                      then [TotalDebit] else [])
            in bind (if differs (Saldo_Akhir last_api) (Saldo_Akhir last_ui)
                     then render2 LastSaldo (Saldo_Akhir last_api) (Saldo_Akhir last_ui) else Inr [])
                 (\<lambda>d3. bind (bank_diffs accounts last_api last_ui)
                    (\<lambda>d4. Inr (d0 @ d1 @ d2 @ d3 @ d4))))
         else Inr d0)"

definition check_parity_against_api :: "error + grid \<Rightarrow> txrow list \<Rightarrow> parity \<Rightarrow> parity" where
  \<comment> \<open>the first argument is the outcome of the fetch, the second the cached frame \<open>self.data\<close>\<close>
  "check_parity_against_api fetch data st =
     (case fetch of
        Inl e \<Rightarrow> \<lparr>parity_state = Unknown, parity_details_last = Failure e\<rparr>
      | Inr vals \<Rightarrow>
          if length vals < 2 then st\<lparr>parity_state := Unknown\<rparr>
          else (case decode_rows (hd vals) (tl vals) of
                  Inl e \<Rightarrow> \<lparr>parity_state = Unknown, parity_details_last = Failure e\<rparr>
                | Inr df_raw \<Rightarrow>
                    if df_raw = [] then st\<lparr>parity_state := Unknown\<rparr>
                    else (case parity_diffs (renumber (recompute_all_balances df_raw)) data of
                            Inl e \<Rightarrow> \<lparr>parity_state = Unknown, parity_details_last = Failure e\<rparr>
                          | Inr ds \<Rightarrow>
                              if ds \<noteq> []
                              then \<lparr>parity_state = Drift, parity_details_last = Diffs ds\<rparr>
                              else \<lparr>parity_state = OK, parity_details_last = AllMatch\<rparr>)))"

section \<open>The realtime watcher: \<open>start_realtime_sync\<close>\<close>

text \<open>
  The state that the watcher, \<open>load_data\<close> and the fetch functions read and write:
  \<open>gsheets.connected\<close>, \<open>gsheets.last_checksum\<close>, \<open>self._last_sheet_checksum\<close>, \<open>self.data\<close>
  and the parity state (the time stamp \<open>last_sync\<close> is left out). The digest function
  \<open>_compute_checksum\<close> is the parameter \<open>cksum\<close>.
\<close>

record sync =
  connected :: bool
  last_checksum :: "string option"
  last_sheet_checksum :: "string option"
  data :: "txrow list"
  par :: parity

definition get_sheet_checksum :: "(grid \<Rightarrow> string) \<Rightarrow> error + grid \<Rightarrow> string option" where
  \<comment> \<open>an exception of the fetch is caught and \<open>None\<close> returned\<close>
  "get_sheet_checksum cksum fetch = (case fetch of Inl e \<Rightarrow> None | Inr vals \<Rightarrow> Some (cksum vals))"

definition get_all_data :: "(grid \<Rightarrow> string) \<Rightarrow> error + grid \<Rightarrow> string option
                              \<Rightarrow> txrow list \<times> string option" where
  \<comment> \<open>the frame returned and the new \<open>last_checksum\<close>; every exception is caught and the empty
      frame returned\<close>
  "get_all_data cksum fetch lc =
     (case fetch of
        Inl e \<Rightarrow> ([], lc)
      | Inr vals \<Rightarrow>
          if length vals < 2 then ([], Some (cksum vals))
          else (case decode_rows (hd vals) (tl vals) of
                  Inl e \<Rightarrow> ([], lc)
                | Inr df \<Rightarrow>
                    if df = [] then ([], Some (cksum vals))
                    else (renumber (recompute_all_balances df), Some (cksum vals))))"

definition load_data :: "(grid \<Rightarrow> string) \<Rightarrow> error + grid \<Rightarrow> error + grid \<Rightarrow> sync \<Rightarrow> sync" where
  \<comment> \<open>the two fetches are the one of \<open>get_all_data\<close> and the one of the parity check\<close>
  "load_data cksum fetch_rows fetch_parity s =
     (let (df, lc) = get_all_data cksum fetch_rows (last_checksum s)
      in s\<lparr>last_checksum := lc, last_sheet_checksum := lc, data := df,
            par := check_parity_against_api fetch_parity df (par s)\<rparr>)"

definition watcher_tick :: "(grid \<Rightarrow> string) \<Rightarrow> error + grid \<Rightarrow> sync \<Rightarrow> sync \<times> bool" where
  \<comment> \<open>one pass of the loop body after the sleep; the flag says that \<open>load_data\<close> was scheduled\<close>
  "watcher_tick cksum fetch s =
     (case get_sheet_checksum cksum fetch of
        None \<Rightarrow> (s, False)
      | Some cs \<Rightarrow>
          if cs \<noteq> [] \<and> Some cs \<noteq> last_sheet_checksum s
          then (s\<lparr>last_sheet_checksum := Some cs\<rparr>, True)
          else (s, False))"

record tick_io =
  checksum_fetch :: "error + grid"
  rows_fetch :: "error + grid"
  parity_fetch :: "error + grid"

definition watcher_cycle :: "(grid \<Rightarrow> string) \<Rightarrow> tick_io \<Rightarrow> sync \<Rightarrow> sync" where
  \<comment> \<open>one interval: the tick, then the reload it scheduled\<close>
  "watcher_cycle cksum io s =
     (let (s1, reload) = watcher_tick cksum (checksum_fetch io) s
      in if reload then load_data cksum (rows_fetch io) (parity_fetch io) s1 else s1)"

fun watcher :: "(grid \<Rightarrow> string) \<Rightarrow> tick_io list \<Rightarrow> sync \<Rightarrow> sync" where
  \<comment> \<open>the loop, over the outcomes of the fetches of successive intervals\<close>
  "watcher cksum [] s = s"
| "watcher cksum (io # ios) s = watcher cksum ios (watcher_cycle cksum io s)"

text \<open>What the parity check compares, stated on the two frames.\<close>

definition comparisons_differ :: "txrow list \<Rightarrow> txrow list \<Rightarrow> bool" where
  \<comment> \<open>at least one of the comparisons of the parity check differs; the monetary ones are
      made when both frames have rows\<close>
  "comparisons_differ fresh cached =
     (length fresh \<noteq> length cached
      \<or> (fresh \<noteq> [] \<and> cached \<noteq> []
          \<and> (differs (col_sum (map Credit fresh)) (col_sum (map Credit cached))
             \<or> differs (col_sum (map Debit fresh)) (col_sum (map Debit cached))
             \<or> differs (Saldo_Akhir (last fresh)) (Saldo_Akhir (last cached))
             \<or> (\<exists>b. differs (Bal (last fresh) b) (Bal (last cached) b)))))"


section \<open>The snapshot written back to the store\<close>

text \<open>
  Modelled from the spec: \<open>materialize\<close> writes the records of a snapshot back as rows in
  the column schema of the store, under the header row \<open>HEADERS\<close>. The money columns are
  written as floats, the way \<open>append_data\<close> writes them, and the other columns as they are.
  An infinite or NaN amount is not a number that a cell of the store holds, so the rows are
  defined when every amount is finite.
\<close>

definition is_finite :: "pyfloat \<Rightarrow> bool" where
  "is_finite v = (case v of Fin q \<Rightarrow> True | _ \<Rightarrow> False)"

definition row_values :: "txrow \<Rightarrow> cell list" where
  "row_values r =
     [No r, Tanggal r, User_ID r, Bank_EWallet r, Keterangan r,
      CFloat (Credit r), CFloat (Debit r), CFloat (Saldo_Akhir r)]
     @ map (\<lambda>b. CFloat (Bal r b)) accounts"

definition storable :: "txrow \<Rightarrow> bool" where
  "storable r = list_all is_finite ([Credit r, Debit r, Saldo_Akhir r] @ map (Bal r) accounts)"

definition materialize :: "txrow list \<Rightarrow> grid option" where
  "materialize snapshot =
     (if list_all storable snapshot then Some (map CStr HEADERS # map row_values snapshot) else None)"

text \<open>
  The amounts of a frame that was decoded and recomputed: a finite one is a whole number
  that is a double (\<open>amount\<close>), which \<open>parse_amount_idr\<close> returns unchanged.
\<close>

definition amount :: "pyfloat \<Rightarrow> bool" where
  "amount v = (case v of Fin q \<Rightarrow> q = of_int \<lfloor>q\<rfloor> \<and> double_of_rat q = Fin q | _ \<Rightarrow> False)"

definition whole :: "pyfloat \<Rightarrow> bool" where
  "whole v = (case v of Fin q \<Rightarrow> q = of_int \<lfloor>q\<rfloor> | _ \<Rightarrow> True)"

definition sound :: "pyfloat \<Rightarrow> bool" where
  "sound v = (amount v \<or> \<not> is_finite v)"

definition sound_row :: "txrow \<Rightarrow> bool" where
  "sound_row r = (sound (Credit r) \<and> sound (Debit r) \<and> sound (Saldo_Akhir r)
                  \<and> list_all sound (map (Bal r) accounts))"


section \<open>A ledger used in the examples\<close>

text \<open>
  An opening balance of 1000 on BCA (written with a blank and in lower case, as a hand-edited
  row may be), a credit of 500 and a debit of 200 on BCA, and a credit on an account that
  is not in \<open>BANK_LIST\<close>.
\<close>

definition scenario :: "txrow list" where
  "scenario =
     [\<lparr>No = CInt 1, Tanggal = CStr ''01/01/2024 08:00:00'', User_ID = CStr '' system'',
       Bank_EWallet = CStr ''Saldo Awal'', Keterangan = CStr ''Inisialisasi'',
       Credit = Fin 0, Debit = Fin 0, Saldo_Akhir = Fin 0, Bal = running0(BCA := Fin 1000)\<rparr>,
      \<lparr>No = CInt 2, Tanggal = CStr ''02/01/2024 09:30:00'', User_ID = CStr ''ani'',
       Bank_EWallet = CStr ''BCA'', Keterangan = CStr ''gaji'',
       Credit = Fin 500, Debit = Fin 0, Saldo_Akhir = Fin 0, Bal = running0\<rparr>,
      \<lparr>No = CInt 3, Tanggal = CStr ''03/01/2024 10:00:00'', User_ID = CStr ''ani'',
       Bank_EWallet = CStr ''BCA'', Keterangan = CStr ''belanja'',
       Credit = Fin 0, Debit = Fin 200, Saldo_Akhir = Fin 0, Bal = running0\<rparr>,
      \<lparr>No = CInt 4, Tanggal = CStr ''04/01/2024 11:00:00'', User_ID = CStr ''budi'',
       Bank_EWallet = CStr ''Tunai'', Keterangan = CStr ''kas'',
       Credit = Fin 75, Debit = Fin 0, Saldo_Akhir = Fin 0, Bal = running0\<rparr>]"


text \<open>
  A ledger whose names end in characters that \<open>strip\<close> removes: an opening balance of 1000
  on BCA by \<open>SYSTEM\<close> followed by a no-break space, and a credit of 100 on \<open>BCA\<close> followed
  by a no-break space and preceded by NEL.
\<close>

definition nbsp_ledger :: "txrow list" where
  "nbsp_ledger =
     [\<lparr>No = CInt 1, Tanggal = CStr ''01/01/2024 08:00:00'', User_ID = CStr (''SYSTEM'' @ [CHR 0xA0]),
       Bank_EWallet = CStr ''SALDO AWAL'', Keterangan = CStr ''Inisialisasi'',
       Credit = Fin 0, Debit = Fin 0, Saldo_Akhir = Fin 0, Bal = running0(BCA := Fin 1000)\<rparr>,
      \<lparr>No = CInt 2, Tanggal = CStr ''02/01/2024 09:30:00'', User_ID = CStr ''ani'',
       Bank_EWallet = CStr ([CHR 0x85] @ ''BCA'' @ [CHR 0xA0]), Keterangan = CStr ''gaji'',
       Credit = Fin 100, Debit = Fin 0, Saldo_Akhir = Fin 0, Bal = running0\<rparr>]"

text \<open>
  A sheet with the header of \<open>HEADERS\<close> and one row whose balance cells are not filled in,
  on an account outside \<open>BANK_LIST\<close>; the cached frame holds that row with a credit of 100.
\<close>

definition sheet_header :: "cell list" where
  "sheet_header = map CStr HEADERS"

definition cash_row :: "int \<Rightarrow> cell list" where
  "cash_row c = [CInt 1, CStr ''04/01/2024 11:00:00'', CStr ''budi'', CStr ''Tunai'', CStr ''kas'',
                 CInt c, CInt 0]"

definition bca_sheet :: grid where
  \<comment> \<open>a sheet of one row, a credit on BCA typed as text, with no balance columns\<close>
  "bca_sheet =
     [sheet_header,
      [CInt 7, CStr ''02/01/2024 09:30:00'', CStr ''ani'', CStr ''BCA'', CStr ''gaji'',
       CStr ''Rp 1.500'', CInt 0]]"

definition written_bca :: grid where
  \<comment> \<open>the header row and the recomputed record of \<open>bca_sheet\<close>, as rows\<close>
  "written_bca =
     [sheet_header,
      [CInt 1, CStr ''02/01/2024 09:30:00'', CStr ''ani'', CStr ''BCA'', CStr ''gaji'',
       CFloat (Fin 1500), CFloat (Fin 0), CFloat (Fin 1500), CFloat (Fin 1500)]
      @ replicate 10 (CFloat (Fin 0))]"

definition cached_cash :: "txrow list" where
  "cached_cash =
     [\<lparr>No = CInt 1, Tanggal = CStr ''04/01/2024 11:00:00'', User_ID = CStr ''budi'',
       Bank_EWallet = CStr ''Tunai'', Keterangan = CStr ''kas'',
       Credit = Fin 100, Debit = Fin 0, Saldo_Akhir = Fin 0, Bal = running0\<rparr>]"

text \<open>
  A sheet of eight such rows with the credits \<open>2^53, 1, 1, 1, 1, 1, 1, 1\<close>, and a cached
  frame of eight rows with the credits \<open>2^53, 0, 0, 0, 0, 0, 0, 0\<close>.
\<close>

definition big_credit_sheet :: grid where
  "big_credit_sheet = sheet_header # map cash_row (9007199254740992 # replicate 7 1)"

definition cached_big :: "txrow list" where
  "cached_big =
     renumber (map (\<lambda>c. (hd cached_cash)\<lparr>Credit := Fin c\<rparr>) (9007199254740992 # replicate 7 0))"

definition parity_ok :: parity where
  "parity_ok = \<lparr>parity_state = OK, parity_details_last = AllMatch\<rparr>"

text \<open>
  The same row with a credit cell of 400 digits, and a cached frame whose \<open>Saldo Akhir\<close> is
  infinite.
\<close>

definition long_credit_row :: "cell list" where
  "long_credit_row = [CInt 1, CStr ''04/01/2024 11:00:00'', CStr ''budi'', CStr ''Tunai'', CStr ''kas'',
                      CStr (replicate 400 (CHR ''9'')), CInt 0]"

definition cached_inf :: "txrow list" where
  "cached_inf = map (\<lambda>r. r\<lparr>Saldo_Akhir := PInf\<rparr>) cached_cash"



text \<open>
  A connected dashboard whose last load had the digest \<open>c0\<close>, an interval in which every
  fetch fails, and one in which the checksum is fetched and the reload's fetch fails.
\<close>

definition online :: sync where
  "online = \<lparr>connected = True, last_checksum = Some ''c0'', last_sheet_checksum = Some ''c0'',
             data = [], par = \<lparr>parity_state = Unknown, parity_details_last = NoDetails\<rparr>\<rparr>"

definition failed_io :: tick_io where
  "failed_io = \<lparr>checksum_fetch = Inl (FetchError ''timeout''),
               rows_fetch = Inl (FetchError ''timeout''),
               parity_fetch = Inl (FetchError ''timeout'')\<rparr>"

definition reload_failed_io :: tick_io where
  "reload_failed_io = \<lparr>checksum_fetch = Inr [[CStr ''No.'']],
               rows_fetch = Inl (FetchError ''timeout''),
               parity_fetch = Inl (FetchError ''timeout'')\<rparr>"


section \<open>Properties of the float model\<close>

lemma bitlen_pos: "0 < k \<Longrightarrow> bitlen k = Suc (bitlen (k div 2))"
  by (simp add: bitlen.simps)

lemma bitlen_nonpos: "k \<le> 0 \<Longrightarrow> bitlen k = 0"
  by (simp add: bitlen.simps)

lemma bitlen_bounds: "0 < k \<Longrightarrow> 2 ^ (bitlen k - 1) \<le> k \<and> k < 2 ^ bitlen k"
proof (induction k rule: bitlen.induct)
  case (1 k)
  show ?case
  proof (cases "k div 2 \<le> 0")
    case True
    with \<open>0 < k\<close> have "k = 1" by linarith
    then show ?thesis by (simp add: bitlen.simps)
  next
    case False
    then have pos: "0 < k div 2" by simp
    have IH: "2 ^ (bitlen (k div 2) - 1) \<le> k div 2 \<and> k div 2 < 2 ^ bitlen (k div 2)"
      using "1.IH" "1.prems" pos by simp
    obtain b where b: "bitlen (k div 2) = Suc b"
      using bitlen_pos [OF pos] by simp
    have "bitlen k = Suc (Suc b)"
      using bitlen_pos [OF "1.prems"] b by simp
    moreover have "2 * 2 ^ b \<le> k" using IH b by simp linarith
    moreover have "k < 2 * (2 * 2 ^ b)" using IH b by simp linarith
    ultimately show ?thesis by simp
  qed
qed

lemma round_half_even_of_int [simp]: "round_half_even (of_int z) = z"
  by (simp add: round_half_even_def)

lemma round_half_even_ge: "of_int z \<le> x \<Longrightarrow> z \<le> round_half_even x"
proof -
  assume "of_int z \<le> x"
  then have "z \<le> \<lfloor>x\<rfloor>" by (simp add: le_floor_iff)
  then show ?thesis by (simp add: round_half_even_def Let_def)
qed

lemma pow2_nonpos: "k \<le> 0 \<Longrightarrow> pow2 k = 1 / of_int (2 ^ nat (- k))"
  by (simp add: pow2_def)

lemma pow2_nonneg: "0 \<le> k \<Longrightarrow> pow2 k = of_int (2 ^ nat k)"
  by (simp add: pow2_def)

lemma ilog2_of_int: "0 < a \<Longrightarrow> ilog2 (of_int a) = int (bitlen a) - 1"
  by (simp add: ilog2_def)

lemma double_of_rat_int:
  assumes "\<bar>n\<bar> < 2 ^ 53"
  shows "double_of_rat (of_int n) = Fin (of_int n)"
proof (cases "n = 0")
  case True
  then show ?thesis by (simp add: double_of_rat_def)
next
  case False
  define a where "a = \<bar>n\<bar>"
  have apos: "0 < a" using False by (simp add: a_def)
  have abs_q: "\<bar>(of_int n :: rat)\<bar> = of_int a" by (simp add: a_def)
  from bitlen_bounds [OF apos] have lo: "2 ^ (bitlen a - 1) \<le> a" and hi: "a < 2 ^ bitlen a"
    by simp_all
  have "bitlen a \<noteq> 0" using hi apos by (cases "bitlen a") auto
  then obtain e where e: "bitlen a = Suc e" by (cases "bitlen a") auto
  have "(2::int) ^ e \<le> a" using lo e by simp
  also have "a < 2 ^ 53" using assms by (simp only: a_def)
  finally have e53: "e < 53" by (rule power_less_imp_less_exp [rotated]) simp
  define k where "k = 52 - e"
  have il: "ilog2 \<bar>(of_int n :: rat)\<bar> = int e"
    by (simp add: abs_q ilog2_of_int [OF apos] e)
  have mx: "max (int e) (- 1022) = int e" by simp
  have u: "pow2 (int e - 52) = 1 / of_int (2 ^ k)"
    using e53 by (simp add: pow2_nonpos k_def nat_diff_distrib')
  have quot: "(of_int n :: rat) / (1 / of_int (2 ^ k)) = of_int (n * 2 ^ k)" by simp
  have r: "of_int (round_half_even ((of_int n :: rat) / (1 / of_int (2 ^ k)))) * (1 / of_int (2 ^ k))
             = (of_int n :: rat)"
    unfolding quot round_half_even_of_int by simp
  have small: "\<not> pow2 1024 \<le> \<bar>(of_int n :: rat)\<bar>"
  proof -
    have "(of_int a :: rat) < of_int (2 ^ 1024)"
      using assms unfolding a_def of_int_less_iff by simp
    then show ?thesis by (simp add: abs_q pow2_nonneg)
  qed
  show ?thesis
    unfolding double_of_rat_def Let_def il mx u r
    using False small by simp
qed

lemma double_of_rat_overflow:
  assumes big: "of_int (2 ^ 1024) \<le> q"
  shows "double_of_rat q = PInf"
proof -
  have two_pos: "(0::rat) < of_int (2 ^ 1024)" by simp
  have qpos: "0 < q" using big two_pos by linarith
  have q1: "1 \<le> q"
  proof -
    have "(1::rat) \<le> of_int (2 ^ 1024)" by simp
    then show ?thesis using big by linarith
  qed
  define a where "a = \<lfloor>q\<rfloor>"
  have a_big: "2 ^ 1024 \<le> a" using big by (simp add: a_def le_floor_iff)
  have apos: "0 < a"
  proof -
    have "(0::int) < 2 ^ 1024" by simp
    then show ?thesis using a_big by linarith
  qed
  from bitlen_bounds [OF apos] have lo: "2 ^ (bitlen a - 1) \<le> a" and hi: "a < 2 ^ bitlen a"
    by simp_all
  have "(2::int) ^ 1024 < 2 ^ bitlen a" using a_big hi by linarith
  then have b_big: "1024 < bitlen a" by (rule power_less_imp_less_exp [rotated]) simp
  then obtain e where e: "bitlen a = Suc e" and e_big: "1024 \<le> e"
    by (cases "bitlen a") auto
  have il: "ilog2 \<bar>q\<bar> = int e"
    using q1 qpos by (simp add: ilog2_def a_def [symmetric] e)
  have mx: "max (int e) (- 1022) = int e" by simp
  define k where "k = e - 52"
  have ek: "e = k + 52" using e_big by (simp add: k_def)
  have u: "pow2 (int e - 52) = of_int (2 ^ k)"
    by (simp add: pow2_nonneg ek)
  define m where "m = round_half_even (q / of_int (2 ^ k))"
  have "(of_int (2 ^ e) :: rat) \<le> of_int a" using lo e by (simp only: of_int_le_iff diff_Suc_1)
  also have "\<dots> \<le> q" by (simp add: a_def)
  finally have q_lo: "(of_int (2 ^ e) :: rat) \<le> q" .
  have "(of_int (2 ^ 52) :: rat) \<le> q / of_int (2 ^ k)"
  proof -
    have "(of_int (2 ^ e) :: rat) = of_int (2 ^ 52) * of_int (2 ^ k)"
      by (simp add: ek power_add)
    then have "(of_int (2 ^ 52) :: rat) * of_int (2 ^ k) \<le> q" using q_lo by simp
    then show ?thesis by (simp add: pos_le_divide_eq)
  qed
  then have m_lo: "2 ^ 52 \<le> m" unfolding m_def by (rule round_half_even_ge)
  have r_lo: "(of_int (2 ^ 1024) :: rat) \<le> of_int m * of_int (2 ^ k)"
  proof -
    have "(2::int) ^ 1024 \<le> 2 ^ e" using e_big by (simp only: power_increasing_iff)
    also have "\<dots> = 2 ^ 52 * 2 ^ k" by (simp add: ek power_add)
    also have "\<dots> \<le> m * 2 ^ k" using m_lo by (simp add: mult_right_mono)
    finally have "(2::int) ^ 1024 \<le> m * 2 ^ k" .
    then have "(of_int (2 ^ 1024) :: rat) \<le> of_int (m * 2 ^ k)" by (simp only: of_int_le_iff)
    then show ?thesis by simp
  qed
  have r_abs: "pow2 1024 \<le> \<bar>of_int m * (of_int (2 ^ k) :: rat)\<bar>"
    using r_lo by (simp add: pow2_nonneg)
  have "q \<noteq> 0" using qpos by simp
  then show ?thesis
    unfolding double_of_rat_def Let_def il mx u m_def [symmetric]
    using r_abs qpos by simp
qed

lemma double_of_rat_numeral:
  "(numeral n :: int) < 2 ^ 53 \<Longrightarrow> double_of_rat (numeral n) = Fin (numeral n)"
  using double_of_rat_int [of "numeral n"] by simp

lemma double_of_rat_neg_numeral:
  "(numeral n :: int) < 2 ^ 53 \<Longrightarrow> double_of_rat (- numeral n) = Fin (- numeral n)"
  using double_of_rat_int [of "- numeral n"] by simp

lemma double_of_rat_0 [simp]: "double_of_rat 0 = Fin 0"
  by (simp add: double_of_rat_def)


section \<open>Properties of the string functions\<close>

lemma py_replace_Nil: "py_replace old new [] = []"
  by (simp add: py_replace.simps)

lemma py_replace_char_Cons:
  "py_replace [c] new (x # xs) = (if x = c then new @ py_replace [c] new xs else x # py_replace [c] new xs)"
  by (subst py_replace.simps) simp

lemma py_replace_char_remove: "py_replace [c] [] s = filter (\<lambda>x. x \<noteq> c) s"
  by (induction s) (simp_all add: py_replace_Nil py_replace_char_Cons)

lemma py_replace_char_char: "py_replace [c] [d] s = map (\<lambda>x. if x = c then d else x) s"
  by (induction s) (simp_all add: py_replace_Nil py_replace_char_Cons)

lemma py_split_nonempty: "py_split c s \<noteq> []"
  by (induction s) (auto split: list.splits)

lemma length_py_split: "length (py_split c s) = Suc (count_list s c)"
  by (induction s) (auto split: list.splits simp: py_split_nonempty)

lemma py_split_no_sep: "c \<notin> set s \<Longrightarrow> py_split c s = [s]"
  by (induction s) auto

lemma py_split_second:
  "count_list s c = Suc 0 \<Longrightarrow> py_split c s ! Suc 0 = tl (dropWhile (\<lambda>x. x \<noteq> c) s)"
proof (induction s)
  case Nil
  then show ?case by simp
next
  case (Cons x xs)
  show ?case
  proof (cases "x = c")
    case True
    with Cons.prems have "count_list xs c = 0" by simp
    then have "c \<notin> set xs" by (simp add: count_list_0_iff)
    then show ?thesis using True by (simp add: py_split_no_sep)
  next
    case False
    with Cons.prems have "count_list xs c = Suc 0" by simp
    from Cons.IH [OF this] show ?thesis
      using False by (auto split: list.splits simp: py_split_nonempty)
  qed
qed

lemma py_replace_absent:
  "old \<noteq> [] \<Longrightarrow> hd old \<notin> set s \<Longrightarrow> py_replace old new s = s"
proof (induction s)
  case Nil
  then show ?case by (simp add: py_replace.simps)
next
  case (Cons x xs)
  from Cons.prems obtain o1 os where old: "old = o1 # os" and "o1 \<noteq> x" "o1 \<notin> set xs"
    by (cases old) auto
  have "py_replace old new xs = xs" using Cons old \<open>o1 \<notin> set xs\<close> by simp
  then show ?case using old \<open>o1 \<noteq> x\<close> by (subst py_replace.simps) auto
qed

lemma digit_not_special:
  "is_decimal c \<Longrightarrow> \<not> py_isspace c \<and> c \<notin> set ''RrIi ,.-()''"
  by (auto simp: is_decimal_def digit_chars_def py_isspace_def)

lemma py_strip_digits:
  assumes "s \<noteq> []" "list_all is_decimal s"
  shows "py_strip s = s"
proof -
  have h: "\<not> py_isspace (hd s)" and l: "\<not> py_isspace (last s)"
    using assms digit_not_special by (auto simp: list_all_iff)
  have 1: "dropWhile py_isspace s = s" using h assms(1) by (cases s) auto
  have "\<exists>t. rev s = last s # t" using assms(1) by (cases s rule: rev_cases) auto
  then obtain t where t: "rev s = last s # t" ..
  have 2: "dropWhile py_isspace (rev s) = rev s" unfolding t using l by simp
  show ?thesis by (simp add: py_strip_def 1 2)
qed

lemma strip_tokens_digits:
  assumes "list_all is_decimal s"
  shows "strip_tokens s = s"
proof -
  have "\<And>c. c \<in> set ''RrIi '' \<Longrightarrow> c \<notin> set s"
    using assms digit_not_special by (fastforce simp: list_all_iff)
  then show ?thesis by (simp add: strip_tokens_def py_replace_absent)
qed

lemma only_digits_digits: "list_all is_decimal s \<Longrightarrow> only_digits s = s"
  by (induction s) (auto simp: only_digits_def py_isdigit_def)

lemma separators_digits:
  assumes "list_all is_decimal s"
  shows "separators s = s"
proof -
  have "CHR '','' \<notin> set s" "CHR ''.'' \<notin> set s"
    using assms digit_not_special by (fastforce simp: list_all_iff)+
  then show ?thesis by (simp add: separators_def)
qed

lemma float_of_str_digits:
  assumes "s \<noteq> []" "list_all is_decimal s"
  shows "float_of_str s = Some (double_of_rat (of_int (digits_value s 0)))"
proof -
  have tw: "takeWhile is_decimal s = s" "dropWhile is_decimal s = []"
    using assms(2) by (simp_all add: list_all_iff)
  obtain c cs where s: "s = c # cs" using assms(1) by (cases s) auto
  have "c \<noteq> CHR ''-''" using assms(2) digit_not_special s by fastforce
  then show ?thesis
    using assms(1) tw by (simp add: float_of_str_def float_of_unsigned_def s)
qed

lemma parse_text_digits:
  assumes "s \<noteq> []" "list_all is_decimal s"
  shows "parse_text s = round_amount (double_of_rat (of_int (digits_value s 0)))"
proof -
  have "hd s \<noteq> CHR ''(''" using assms digit_not_special by (cases s) fastforce+
  then show ?thesis
    using assms
    by (simp add: parse_text_def Let_def py_strip_digits strip_tokens_digits only_digits_digits
        separators_digits float_of_str_digits)
qed

lemma digits_value_nines: "digits_value (replicate n (CHR ''9'')) acc = (acc + 1) * 10 ^ n - 1"
  by (induction n arbitrary: acc) (simp_all add: algebra_simps)

lemma round_amount_PInf: "round_amount PInf = Inl OverflowError"
  by (simp add: round_amount_def idr_decimals_def py_round_def)


lemma parse_amount_idr_huge:
  assumes "s \<noteq> []" "list_all is_decimal s" "2 ^ 1024 \<le> digits_value s 0"
  shows "parse_amount_idr (CStr s) = Inl OverflowError"
proof -
  have "(of_int (2 ^ 1024) :: rat) \<le> of_int (digits_value s 0)"
    using assms(3) unfolding of_int_le_iff .
  then have "double_of_rat (of_int (digits_value s 0)) = PInf"
    by (rule double_of_rat_overflow)
  then show ?thesis
    using parse_text_digits [OF assms(1,2)] by (simp add: parse_amount_idr_def round_amount_PInf)
qed

lemma nines_huge:
  "replicate 400 (CHR ''9'') \<noteq> [] \<and> list_all is_decimal (replicate 400 (CHR ''9''))
   \<and> 2 ^ 1024 \<le> digits_value (replicate 400 (CHR ''9'')) 0"
proof -
  have "(2::int) ^ 1024 \<le> 10 ^ 400 - 1" by simp
  then show ?thesis
    by (simp add: digits_value_nines list_all_iff is_decimal_def digit_chars_def)
qed

section \<open>Amount normalisation\<close>

text \<open>
  C4, as the claim states it, fails: for a cleaned string with a comma and no dot the claim
  removes the comma of \<open>1,234\<close> (three digits follow it), and the code turns it into the
  decimal point.
\<close>

theorem separators_comma_three_digits:
  "CHR '','' \<in> set ''1,234'' \<and> CHR ''.'' \<notin> set ''1,234''
   \<and> separators ''1,234'' = ''1.234'' \<and> spec_comma_rule ''1,234'' = ''1234''"
  by code_simp

text \<open>
  C4, amended: for a cleaned string with a comma and no dot, the comma becomes the decimal
  point exactly when it is the only comma and the text after it is a non-empty run of
  digits (of any length), a digit being a character of \<open>str.isdigit\<close>: a decimal digit or
  a superscript two, three or one; otherwise every comma is removed.
\<close>

theorem separators_comma_only:
  assumes "CHR '','' \<in> set s" and "CHR ''.'' \<notin> set s"
  shows "separators s =
     (if count_list s (CHR '','') = 1 \<and> str_isdigit (tl (dropWhile (\<lambda>c. c \<noteq> CHR '','') s))
      then map (\<lambda>c. if c = CHR '','' then CHR ''.'' else c) s
      else filter (\<lambda>c. c \<noteq> CHR '','') s)"
proof -
  have nodot: "filter (\<lambda>x. x \<noteq> CHR ''.'') s = s"
    using assms(2) by (induction s) auto
  show ?thesis
  proof (cases "count_list s (CHR '','') = 1")
    case True
    then show ?thesis
      using assms
      by (simp add: separators_def Let_def length_py_split py_split_second
          py_replace_char_remove py_replace_char_char nodot)
  next
    case False
    then show ?thesis
      using assms
      by (simp add: separators_def Let_def length_py_split py_replace_char_remove)
  qed
qed

theorem separators_comma_only_witness:
  "CHR '','' \<in> set ''12,5'' \<and> CHR ''.'' \<notin> set ''12,5'' \<and> separators ''12,5'' = ''12.5''
   \<and> CHR '','' \<in> set ''1,234,567'' \<and> CHR ''.'' \<notin> set ''1,234,567''
   \<and> separators ''1,234,567'' = ''1234567''
   \<and> CHR '','' \<in> set (''1,'' @ [CHR 0xB2]) \<and> CHR ''.'' \<notin> set (''1,'' @ [CHR 0xB2])
   \<and> separators (''1,'' @ [CHR 0xB2]) = ''1.'' @ [CHR 0xB2]
   \<and> CHR '','' \<in> set ''1,-5'' \<and> CHR ''.'' \<notin> set ''1,-5'' \<and> separators ''1,-5'' = ''1-5''"
  using separators_comma_only [of "''12,5''"] separators_comma_only [of "''1,234,567''"]
    separators_comma_only [of "''1,'' @ [CHR 0xB2]"] separators_comma_only [of "''1,-5''"]
  by (simp add: str_isdigit_def py_isdigit_def is_decimal_def digit_chars_def)



text \<open>
  C6: \<open>parse_amount_idr\<close> raises on a text of 400 digits. \<open>float\<close> of the cleaned text is
  \<open>inf\<close>, and \<open>round(inf)\<close>, outside the \<open>try\<close>, raises \<open>OverflowError\<close>.
\<close>

theorem parse_amount_idr_overflow:
  "parse_amount_idr (CStr (replicate 400 (CHR ''9''))) = Inl OverflowError"
  using nines_huge by (simp add: parse_amount_idr_huge)

section \<open>The recompute core\<close>

lemma accounts_complete: "b \<in> set accounts"
  by (cases b) (simp_all add: accounts_def)

lemma fold_fun_upd:
  "fold (\<lambda>b run. run(b := f b)) bs run = (\<lambda>b. if b \<in> set bs then f b else run b)"
  by (induction bs arbitrary: run) (auto simp: fun_eq_iff)

lemma fold_Bal_upd:
  "fold (\<lambda>b r. r\<lparr>Bal := (Bal r)(b := f b)\<rparr>) bs r
     = r\<lparr>Bal := (\<lambda>b. if b \<in> set bs then f b else Bal r b)\<rparr>"
proof (induction bs arbitrary: r)
  case Nil
  then show ?case by simp
next
  case (Cons a bs)
  let ?F = "\<lambda>b r. r\<lparr>Bal := (Bal r)(b := f b)\<rparr>"
  have "fold ?F (a # bs) r = fold ?F bs (?F a r)" by simp
  also have "\<dots> = (?F a r)\<lparr>Bal := (\<lambda>b. if b \<in> set bs then f b else Bal (?F a r) b)\<rparr>"
    by (rule Cons.IH)
  also have "\<dots> = r\<lparr>Bal := (\<lambda>b. if b \<in> set (a # bs) then f b else Bal r b)\<rparr>"
    by (rule txrow.equality) (auto simp: fun_eq_iff)
  finally show ?case .
qed

lemma float_or_zero_id [simp]: "float_or_zero v = v"
  by (simp add: float_or_zero_def)

lemma emit_eq: "emit running r = r\<lparr>Bal := running, Saldo_Akhir := py_sum (map running accounts)\<rparr>"
  by (simp add: emit_def fold_Bal_upd accounts_complete)

lemma step_reset:
  "is_system_init r \<Longrightarrow> step running r = (\<lambda>b. if notna (Bal r b) then Bal r b else Fin 0)"
  by (simp add: step_def fold_fun_upd accounts_complete Let_def)

lemma step_mutation:
  "\<not> is_system_init r \<Longrightarrow> row_account r = Some a
     \<Longrightarrow> step running r = running(a := fadd (running a) (fsub (Credit r) (Debit r)))"
  by (simp add: step_def)

lemma step_unrecognised:
  "\<not> is_system_init r \<Longrightarrow> row_account r = None \<Longrightarrow> step running r = running"
  by (simp add: step_def)

lemma length_recompute_loop [simp]: "length (recompute_loop running df) = length df"
  by (induction df arbitrary: running) (simp_all add: Let_def)

lemma recompute_loop_nth:
  "i < length df \<Longrightarrow>
     recompute_loop running df ! i = emit (foldl step running (take (Suc i) df)) (df ! i)"
proof (induction df arbitrary: running i)
  case Nil
  then show ?case by simp
next
  case (Cons r df)
  show ?case
  proof (cases i)
    case 0
    then show ?thesis by (simp add: Let_def)
  next
    case (Suc j)
    with Cons.prems have "j < length df" by simp
    from Cons.IH [OF this] show ?thesis using Suc by (simp add: Let_def)
  qed
qed

lemma Bal_recompute_nth:
  "i < length df \<Longrightarrow> Bal (recompute_all_balances df ! i) = foldl step running0 (take (Suc i) df)"
  by (simp add: recompute_all_balances_def recompute_loop_nth emit_eq)

lemma running_before:
  assumes "i < length df"
  shows "(if i = 0 then running0 else Bal (recompute_all_balances df ! (i - 1)))
           = foldl step running0 (take i df)"
proof (cases i)
  case 0
  then show ?thesis by simp
next
  case (Suc j)
  then have "j < length df" using assms by simp
  then show ?thesis using Suc by (simp add: Bal_recompute_nth)
qed

lemma Bal_recompute_step:
  assumes "i < length df"
  shows "Bal (recompute_all_balances df ! i)
           = step (if i = 0 then running0 else Bal (recompute_all_balances df ! (i - 1))) (df ! i)"
  using assms by (simp only: running_before Bal_recompute_nth) (simp add: take_Suc_conv_app_nth)


lemma length_recompute_all_balances [simp]: "length (recompute_all_balances df) = length df"
  by (simp add: recompute_all_balances_def)


lemma scenario_row0: "is_system_init (scenario ! 0)" by code_simp
lemma scenario_row1: "\<not> is_system_init (scenario ! 1) \<and> row_account (scenario ! 1) = Some BCA" by code_simp
lemma scenario_row3: "\<not> is_system_init (scenario ! 3) \<and> row_account (scenario ! 3) = None" by code_simp

lemma nbsp_row0: "is_system_init (nbsp_ledger ! 0)" by code_simp
lemma nbsp_row1: "\<not> is_system_init (nbsp_ledger ! 1) \<and> row_account (nbsp_ledger ! 1) = Some BCA" by code_simp


lemma scenario_bal2:
  "map (Bal (recompute_all_balances scenario ! 2)) accounts
     = [Fin 1300, Fin 0, Fin 0, Fin 0, Fin 0, Fin 0, Fin 0, Fin 0, Fin 0, Fin 0, Fin 0]"
  by code_simp

lemma scenario_sum2:
  "py_sum [Fin 1300, Fin 0, Fin 0, Fin 0, Fin 0, Fin 0, Fin 0, Fin 0, Fin 0, Fin 0, Fin 0] = Fin 1300"
  by (simp add: py_sum_def double_of_rat_numeral)


lemma is_system_init_emit [simp]: "is_system_init (emit running r) = is_system_init r"
  by (simp add: emit_eq is_system_init_def row_user_def row_bank_def)

lemma row_account_emit [simp]: "row_account (emit running r) = row_account r"
  by (simp add: emit_eq row_account_def row_bank_def)

lemma Bal_emit [simp]: "Bal (emit running r) = running"
  by (simp add: emit_eq)

lemma Credit_emit [simp]: "Credit (emit running r) = Credit r"
  by (simp add: emit_eq)

lemma Debit_emit [simp]: "Debit (emit running r) = Debit r"
  by (simp add: emit_eq)

lemma step_emit_mutation:
  "\<not> is_system_init r \<Longrightarrow> step running (emit x r) = step running r"
  by (simp add: step_def)

lemma step_emit_reset:
  "is_system_init r \<Longrightarrow> step running (emit x r) = (\<lambda>b. if notna (x b) then x b else Fin 0)"
  by (simp add: step_reset [of "emit x r"] cong: if_cong)

lemma step_emit_step: "step running (emit (step running r) r) = step running r"
proof (cases "is_system_init r")
  case True
  then show ?thesis
    by (simp only: step_emit_reset) (auto simp: step_reset notna_def fun_eq_iff)
next
  case False
  then show ?thesis by (rule step_emit_mutation)
qed

lemma emit_emit [simp]: "emit running (emit running r) = emit running r"
  by (simp add: emit_eq)

lemma recompute_loop_idem:
  "recompute_loop running (recompute_loop running df) = recompute_loop running df"
  by (induction df arbitrary: running) (simp_all add: Let_def step_emit_step)


lemma is_system_init_No_update [simp]: "is_system_init (r\<lparr>No := x\<rparr>) = is_system_init r"
  by (simp add: is_system_init_def row_user_def row_bank_def)

lemma row_account_No_update [simp]: "row_account (r\<lparr>No := x\<rparr>) = row_account r"
  by (simp add: row_account_def row_bank_def)

lemma step_No_update [simp]: "step running (r\<lparr>No := x\<rparr>) = step running r"
  by (simp add: step_def)

lemma emit_No_update [simp]: "emit running (r\<lparr>No := x\<rparr>) = (emit running r)\<lparr>No := x\<rparr>"
  by (simp add: emit_eq)

lemma recompute_loop_renumber:
  "recompute_loop running (map (\<lambda>(i, r). r\<lparr>No := f i\<rparr>) (enumerate n df))
     = map (\<lambda>(i, r). r\<lparr>No := f i\<rparr>) (enumerate n (recompute_loop running df))"
  by (induction df arbitrary: running n) (simp_all add: Let_def)

lemma recompute_renumber:
  "recompute_all_balances (renumber df) = renumber (recompute_all_balances df)"
  by (simp add: recompute_all_balances_def renumber_def recompute_loop_renumber)

lemma renumber_from_idem:
  "map (\<lambda>(i, r). r\<lparr>No := f i\<rparr>) (enumerate n (map (\<lambda>(i, r). r\<lparr>No := f i\<rparr>) (enumerate n df)))
     = map (\<lambda>(i, r). r\<lparr>No := f i\<rparr>) (enumerate n df)"
  by (induction df arbitrary: n) simp_all

lemma renumber_idem: "renumber (renumber df) = renumber df"
  by (simp add: renumber_def renumber_from_idem)

text \<open>
  C1: at every position \<open>i\<close> of the frame, a row that matches the reset sentinel sets every
  balance of the emitted record to the row's own field (zero where the field is NaN, the
  missing value), whatever the rows before it and its credit and debit are; a row that does
  not, with an account of \<open>BANK_LIST\<close>, adds credit minus debit to that account's balance of
  position \<open>i - 1\<close> (zero before the first row) and leaves every other balance as it was;
  and a row that does not, with an account outside \<open>BANK_LIST\<close>, leaves all balances as
  they were.
\<close>

theorem recompute_row_semantics:
  assumes "i < length df"
  shows "(is_system_init (df ! i) \<longrightarrow>
            (\<forall>b. Bal (recompute_all_balances df ! i) b
                   = (if notna (Bal (df ! i) b) then Bal (df ! i) b else Fin 0)))
       \<and> (\<not> is_system_init (df ! i) \<longrightarrow>
            (\<forall>a. row_account (df ! i) = Some a \<longrightarrow>
               Bal (recompute_all_balances df ! i) a
                 = fadd ((if i = 0 then running0 else Bal (recompute_all_balances df ! (i - 1))) a)
                        (fsub (Credit (df ! i)) (Debit (df ! i)))
               \<and> (\<forall>b. b \<noteq> a \<longrightarrow>
                     Bal (recompute_all_balances df ! i) b
                       = (if i = 0 then running0 else Bal (recompute_all_balances df ! (i - 1))) b)))
       \<and> (\<not> is_system_init (df ! i) \<and> row_account (df ! i) = None \<longrightarrow>
            Bal (recompute_all_balances df ! i)
              = (if i = 0 then running0 else Bal (recompute_all_balances df ! (i - 1))))"
  unfolding Bal_recompute_step [OF assms]
  by (auto simp: step_reset step_mutation step_unrecognised)


text \<open>
  C1 on the example ledger: the reset row, the credit on BCA and the row of an unknown
  account; and on the ledger whose names end in a no-break space: the reset row and the
  credit on BCA.
\<close>

theorem recompute_row_semantics_witness:
  "Bal (recompute_all_balances scenario ! 0) BCA = Fin 1000
   \<and> Bal (recompute_all_balances scenario ! 0) OVO = Fin 0
   \<and> Bal (recompute_all_balances scenario ! 1) BCA = Fin 1500
   \<and> Bal (recompute_all_balances scenario ! 1) OVO = Fin 0
   \<and> Bal (recompute_all_balances scenario ! 3) = Bal (recompute_all_balances scenario ! 2)
   \<and> is_system_init (nbsp_ledger ! 0)
   \<and> Bal (recompute_all_balances nbsp_ledger ! 0) BCA = Fin 1000
   \<and> row_account (nbsp_ledger ! 1) = Some BCA
   \<and> Bal (recompute_all_balances nbsp_ledger ! 1) BCA = Fin 1100"
proof -
  have len: "0 < length scenario" "1 < length scenario" "3 < length scenario"
    by (simp_all add: scenario_def)
  have nlen: "0 < length nbsp_ledger" "1 < length nbsp_ledger"
    by (simp_all add: nbsp_ledger_def)
  have g0: "Bal (nbsp_ledger ! 0) = running0(BCA := Fin 1000)"
    and g1: "Credit (nbsp_ledger ! 1) = Fin 100" "Debit (nbsp_ledger ! 1) = Fin 0"
    by (simp_all add: nbsp_ledger_def)
  from recompute_row_semantics [OF nlen(1)] nbsp_row0
  have n0: "Bal (recompute_all_balances nbsp_ledger ! 0) b
              = (if notna (Bal (nbsp_ledger ! 0) b) then Bal (nbsp_ledger ! 0) b else Fin 0)" for b
    by blast
  from recompute_row_semantics [OF nlen(2)] nbsp_row1
  have n1: "Bal (recompute_all_balances nbsp_ledger ! 1) BCA
              = fadd (Bal (recompute_all_balances nbsp_ledger ! 0) BCA)
                  (fsub (Credit (nbsp_ledger ! 1)) (Debit (nbsp_ledger ! 1)))"
    by simp
  have m0: "Bal (recompute_all_balances nbsp_ledger ! 0) BCA = Fin 1000"
    unfolding n0 g0 by (simp add: notna_def)
  have m1: "Bal (recompute_all_balances nbsp_ledger ! 1) BCA = Fin 1100"
    unfolding n1 m0 g1 by (simp add: fsub_def fneg_def double_of_rat_numeral)
  have f0: "Bal (scenario ! 0) = running0(BCA := Fin 1000)"
    and f1: "Credit (scenario ! 1) = Fin 500" "Debit (scenario ! 1) = Fin 0"
    by (simp_all add: scenario_def)
  from recompute_row_semantics [OF len(1)] scenario_row0
  have b0: "Bal (recompute_all_balances scenario ! 0) b
              = (if notna (Bal (scenario ! 0) b) then Bal (scenario ! 0) b else Fin 0)" for b
    by blast
  from recompute_row_semantics [OF len(2)] scenario_row1
  have b1: "Bal (recompute_all_balances scenario ! 1) BCA
              = fadd (Bal (recompute_all_balances scenario ! 0) BCA)
                  (fsub (Credit (scenario ! 1)) (Debit (scenario ! 1)))"
    and b1': "b \<noteq> BCA \<Longrightarrow> Bal (recompute_all_balances scenario ! 1) b
                = Bal (recompute_all_balances scenario ! 0) b" for b
    by simp_all
  from recompute_row_semantics [OF len(3)] scenario_row3
  have b3: "Bal (recompute_all_balances scenario ! 3) = Bal (recompute_all_balances scenario ! 2)"
    by simp
  have c0: "Bal (recompute_all_balances scenario ! 0) BCA = Fin 1000"
    and c0': "Bal (recompute_all_balances scenario ! 0) OVO = Fin 0"
    unfolding b0 f0 by (simp_all add: notna_def running0_def)
  have c1: "Bal (recompute_all_balances scenario ! 1) BCA = Fin 1500"
    unfolding b1 c0 f1 by (simp add: fsub_def fneg_def double_of_rat_numeral)
  have c1': "Bal (recompute_all_balances scenario ! 1) OVO = Fin 0"
    using b1' [of OVO] c0' by simp
  from c0 c0' c1 c1' b3 nbsp_row0 nbsp_row1 m0 m1 show ?thesis by blast
qed

text \<open>
  C2: every record that \<open>recompute_all_balances\<close> emits has \<open>Saldo Akhir\<close> equal to the sum
  of its balance columns, added in the order of \<open>BANK_LIST\<close>.
\<close>

theorem saldo_akhir_is_sum:
  assumes "r \<in> set (recompute_all_balances df)"
  shows "Saldo_Akhir r = py_sum (map (Bal r) accounts)"
proof -
  from assms obtain i where i: "i < length df" and r: "r = recompute_all_balances df ! i"
    by (auto simp: in_set_conv_nth recompute_all_balances_def)
  show ?thesis
    using i by (simp add: r recompute_all_balances_def recompute_loop_nth emit_eq)
qed


text \<open>C2 on the third record of the example ledger.\<close>

theorem saldo_akhir_is_sum_witness:
  "recompute_all_balances scenario ! 2 \<in> set (recompute_all_balances scenario)
   \<and> map (Bal (recompute_all_balances scenario ! 2)) accounts
        = [Fin 1300, Fin 0, Fin 0, Fin 0, Fin 0, Fin 0, Fin 0, Fin 0, Fin 0, Fin 0, Fin 0]
   \<and> Saldo_Akhir (recompute_all_balances scenario ! 2) = Fin 1300"
proof -
  have m: "recompute_all_balances scenario ! 2 \<in> set (recompute_all_balances scenario)"
    by (rule nth_mem) (simp add: scenario_def)
  from saldo_akhir_is_sum [OF m] show ?thesis
    using m by (simp only: scenario_bal2 scenario_sum2)
qed


text \<open>
  C10: \<open>recompute_all_balances\<close> emits one record for each row, in the order of the rows,
  and the record at position \<open>i\<close> has the \<open>No.\<close>, \<open>Tanggal\<close>, \<open>User ID\<close>, \<open>Bank/EWallet\<close>,
  \<open>Keterangan\<close>, \<open>Credit\<close> and \<open>Debit\<close> of row \<open>i\<close>.
\<close>

theorem recompute_frame:
  "length (recompute_all_balances df) = length df
   \<and> (\<forall>i < length df.
        No (recompute_all_balances df ! i) = No (df ! i)
      \<and> Tanggal (recompute_all_balances df ! i) = Tanggal (df ! i)
      \<and> User_ID (recompute_all_balances df ! i) = User_ID (df ! i)
      \<and> Bank_EWallet (recompute_all_balances df ! i) = Bank_EWallet (df ! i)
      \<and> Keterangan (recompute_all_balances df ! i) = Keterangan (df ! i)
      \<and> Credit (recompute_all_balances df ! i) = Credit (df ! i)
      \<and> Debit (recompute_all_balances df ! i) = Debit (df ! i))"
  by (simp add: recompute_all_balances_def recompute_loop_nth emit_eq)


text \<open>C10 on the example ledger.\<close>

theorem recompute_frame_witness:
  "length (recompute_all_balances scenario) = 4
   \<and> User_ID (recompute_all_balances scenario ! 1) = CStr ''ani''
   \<and> Credit (recompute_all_balances scenario ! 1) = Fin 500
   \<and> Keterangan (recompute_all_balances scenario ! 3) = CStr ''kas''
   \<and> No (recompute_all_balances scenario ! 3) = CInt 4"
proof -
  have len: "length scenario = 4" by (simp add: scenario_def)
  have r: "User_ID (scenario ! 1) = CStr ''ani''" "Credit (scenario ! 1) = Fin 500"
    "Keterangan (scenario ! 3) = CStr ''kas''" "No (scenario ! 3) = CInt 4"
    by (simp_all add: scenario_def)
  from recompute_frame [of scenario] have
    "length (recompute_all_balances scenario) = length scenario"
    and "\<And>i. i < length scenario \<Longrightarrow>
           No (recompute_all_balances scenario ! i) = No (scenario ! i)
         \<and> User_ID (recompute_all_balances scenario ! i) = User_ID (scenario ! i)
         \<and> Keterangan (recompute_all_balances scenario ! i) = Keterangan (scenario ! i)
         \<and> Credit (recompute_all_balances scenario ! i) = Credit (scenario ! i)"
    by simp_all
  from this(1) this(2) [of 1] this(2) [of 3] show ?thesis
    unfolding len r by simp
qed

section \<open>The checksum\<close>


lemma length_hexdigest [simp]: "length (hexdigest w) = 40"
  by (simp add: hexdigest_def)








section \<open>The realtime watcher\<close>

lemma watcher_tick_failed: "watcher_tick cksum (Inl e) s = (s, False)"
  by (simp add: watcher_tick_def get_sheet_checksum_def)

lemma watcher_cycle_failed_checksum:
  "checksum_fetch io = Inl e \<Longrightarrow> watcher_cycle cksum io s = s"
  by (simp add: watcher_cycle_def watcher_tick_failed)

lemma connected_load_data [simp]: "connected (load_data cksum fr fp s) = connected s"
  by (simp add: load_data_def split: prod.splits)

lemma connected_watcher_tick [simp]: "connected (fst (watcher_tick cksum f s)) = connected s"
  by (simp add: watcher_tick_def split: option.splits)

lemma connected_watcher_cycle [simp]: "connected (watcher_cycle cksum io s) = connected s"
proof -
  obtain s1 reload where t: "watcher_tick cksum (checksum_fetch io) s = (s1, reload)"
    by (cases "watcher_tick cksum (checksum_fetch io) s")
  have "connected s1 = connected s"
    using connected_watcher_tick [of cksum "checksum_fetch io" s] by (simp add: t)
  then show ?thesis by (simp add: watcher_cycle_def t)
qed

lemma connected_watcher [simp]: "connected (watcher cksum ios s) = connected s"
  by (induction ios arbitrary: s) simp_all

lemma get_all_data_failed: "get_all_data cksum (Inl e) lc = ([], lc)"
  by (simp add: get_all_data_def)

lemma load_data_failed:
  "load_data cksum (Inl e) fp s
     = s\<lparr>last_sheet_checksum := last_checksum s, data := [],
          par := check_parity_against_api fp [] (par s)\<rparr>"
  by (simp add: load_data_def get_all_data_failed)


text \<open>
  C8, as the claim states it, fails: the connectivity flag of a connected dashboard is still
  true after an interval whose checksum fetch fails, and after one whose row fetch fails.
\<close>

theorem watcher_keeps_connected:
  "connected online
   \<and> connected (watcher_cycle (\<lambda>vals. ''c1'') failed_io online)
   \<and> connected (watcher_cycle (\<lambda>vals. ''c1'') reload_failed_io online)"
  by (simp add: online_def failed_io_def reload_failed_io_def watcher_cycle_def watcher_tick_def
      get_sheet_checksum_def load_data_def get_all_data_def)


text \<open>
  C8, amended: an interval whose checksum fetch fails leaves the whole state as it was (the
  connectivity flag too) and the loop goes on with the next interval, which fetches
  again; an interval whose reload fails to fetch the rows leaves the flag and the last loaded
  checksum as they were and sets the watcher's checksum back to the last loaded one, so
  that the next tick schedules the reload again when the sheet's digest is not the last
  loaded one; the watcher never writes the connectivity flag.
\<close>

theorem watcher_fetch_failure:
  "(checksum_fetch io = Inl e \<longrightarrow>
      watcher_cycle cksum io s = s \<and> watcher cksum (io # ios) s = watcher cksum ios s)
   \<and> (checksum_fetch io = Inr vals \<and> cksum vals \<noteq> [] \<and> Some (cksum vals) \<noteq> last_sheet_checksum s
        \<and> rows_fetch io = Inl e \<longrightarrow>
      connected (watcher_cycle cksum io s) = connected s
      \<and> last_checksum (watcher_cycle cksum io s) = last_checksum s
      \<and> last_sheet_checksum (watcher_cycle cksum io s) = last_checksum s
      \<and> (Some (cksum vals) \<noteq> last_checksum s \<longrightarrow>
           snd (watcher_tick cksum (Inr vals) (watcher_cycle cksum io s))))
   \<and> connected (watcher cksum ios s) = connected s"
  by (auto simp: watcher_cycle_failed_checksum watcher_cycle_def watcher_tick_def
      get_sheet_checksum_def load_data_failed)


text \<open>C8 on the connected dashboard and the two failing intervals.\<close>

theorem watcher_fetch_failure_witness:
  "watcher_cycle (\<lambda>vals. ''c1'') failed_io online = online
   \<and> watcher (\<lambda>vals. ''c1'') [failed_io, reload_failed_io] online
       = watcher (\<lambda>vals. ''c1'') [reload_failed_io] online
   \<and> connected (watcher_cycle (\<lambda>vals. ''c1'') reload_failed_io online)
   \<and> last_sheet_checksum (watcher_cycle (\<lambda>vals. ''c1'') reload_failed_io online) = Some ''c0''
   \<and> snd (watcher_tick (\<lambda>vals. ''c1'') (Inr [[CStr ''No.'']])
            (watcher_cycle (\<lambda>vals. ''c1'') reload_failed_io online))
   \<and> connected (watcher (\<lambda>vals. ''c1'') [failed_io, reload_failed_io, failed_io] online)"
proof -
  have f: "checksum_fetch failed_io = Inl (FetchError ''timeout'')"
    by (simp add: failed_io_def)
  have r: "checksum_fetch reload_failed_io = Inr [[CStr ''No.'']]"
      "rows_fetch reload_failed_io = Inl (FetchError ''timeout'')"
    by (simp_all add: reload_failed_io_def)
  have o: "connected online" "last_checksum online = Some ''c0''"
      "last_sheet_checksum online = Some ''c0''"
    by (simp_all add: online_def)
  from watcher_fetch_failure [of failed_io "FetchError ''timeout''" "\<lambda>vals. ''c1''" online
        "[reload_failed_io]" "[]"]
    watcher_fetch_failure [of reload_failed_io "FetchError ''timeout''" "\<lambda>vals. ''c1''" online
        "[failed_io, reload_failed_io, failed_io]" "[[CStr ''No.'']]"]
  show ?thesis
    by (simp add: f r o)
qed

section \<open>The parity check\<close>

lemma bind_Inr_iff: "bind m f = Inr y \<longleftrightarrow> (\<exists>x. m = Inr x \<and> f x = Inr y)"
  by (cases m) (simp_all add: bind_def)

lemma bind_Inl_iff: "bind m f = Inl e \<longleftrightarrow> m = Inl e \<or> (\<exists>x. m = Inr x \<and> f x = Inl e)"
  by (cases m) (simp_all add: bind_def)

lemma length_decode_rows: "decode_rows header rows = Inr df \<Longrightarrow> length df = length rows"
  by (induction rows arbitrary: df) (auto simp: bind_Inr_iff)

lemma render2_nonempty: "render2 line a b = Inr d \<Longrightarrow> d = [line (case py_int a of Inr i \<Rightarrow> i) (case py_int b of Inr j \<Rightarrow> j)]"
  by (auto simp: render2_def bind_Inr_iff)

lemma bank_diffs_nonempty:
  "bank_diffs bs last_api last_ui = Inr ds \<Longrightarrow>
     (ds \<noteq> [] \<longleftrightarrow> (\<exists>b \<in> set bs. differs (Bal last_api b) (Bal last_ui b)))"
proof (induction bs arbitrary: ds)
  case Nil
  then show ?case by simp
next
  case (Cons b bs)
  from Cons.prems obtain d ds' where
    d: "(if differs (Bal last_api b) (Bal last_ui b)
         then render2 (LastBank b) (Bal last_api b) (Bal last_ui b) else Inr []) = Inr d"
    and ds': "bank_diffs bs last_api last_ui = Inr ds'" and ds: "ds = d @ ds'"
    by (auto simp: bind_Inr_iff)
  have "d \<noteq> [] \<longleftrightarrow> differs (Bal last_api b) (Bal last_ui b)"
    using d by (auto split: if_splits dest: render2_nonempty)
  then show ?case using Cons.IH [OF ds'] ds by auto
qed

lemma bank_diffs_no_total:
  "bank_diffs bs last_api last_ui = Inr ds \<Longrightarrow> TotalCredit \<notin> set ds"
proof (induction bs arbitrary: ds)
  case Nil
  then show ?case by simp
next
  case (Cons b bs)
  from Cons.prems obtain d ds' where
    d: "(if differs (Bal last_api b) (Bal last_ui b)
         then render2 (LastBank b) (Bal last_api b) (Bal last_ui b) else Inr []) = Inr d"
    and ds': "bank_diffs bs last_api last_ui = Inr ds'" and ds: "ds = d @ ds'"
    by (auto simp: bind_Inr_iff)
  have "TotalCredit \<notin> set d"
    using d by (auto split: if_splits dest: render2_nonempty)
  then show ?case using Cons.IH [OF ds'] ds by auto
qed

lemma parity_diffs_nonempty:
  assumes "parity_diffs fresh cached = Inr ds"
  shows "ds \<noteq> [] \<longleftrightarrow> comparisons_differ fresh cached"
proof (cases "fresh \<noteq> [] \<and> cached \<noteq> []")
  case False
  then show ?thesis
    using assms by (auto simp: parity_diffs_def comparisons_differ_def)
next
  case True
  from assms True obtain d3 d4 where
    d3: "(if differs (Saldo_Akhir (last fresh)) (Saldo_Akhir (last cached))
          then render2 LastSaldo (Saldo_Akhir (last fresh)) (Saldo_Akhir (last cached))
          else Inr []) = Inr d3"
    and d4: "bank_diffs accounts (last fresh) (last cached) = Inr d4"
    and ds: "ds = (if length fresh \<noteq> length cached
                   then [RowCount (length fresh) (length cached)] else [])
               @ (if differs (col_sum (map Credit fresh)) (col_sum (map Credit cached))
                  then [TotalCredit] else [])
               @ (if differs (col_sum (map Debit fresh)) (col_sum (map Debit cached))
                  then [TotalDebit] else [])
               @ d3 @ d4"
    by (auto simp: parity_diffs_def Let_def bind_Inr_iff)
  have 3: "d3 \<noteq> [] \<longleftrightarrow> differs (Saldo_Akhir (last fresh)) (Saldo_Akhir (last cached))"
    using d3 by (auto split: if_splits dest: render2_nonempty)
  have 4: "d4 \<noteq> [] \<longleftrightarrow> (\<exists>b. differs (Bal (last fresh) b) (Bal (last cached) b))"
    using bank_diffs_nonempty [OF d4] accounts_complete by auto
  show ?thesis
    unfolding ds comparisons_differ_def using True 3 4 by auto
qed

lemma parity_diffs_total_credit:
  assumes "parity_diffs fresh cached = Inr ds"
  shows "TotalCredit \<in> set ds \<longleftrightarrow>
           fresh \<noteq> [] \<and> cached \<noteq> []
           \<and> differs (col_sum (map Credit fresh)) (col_sum (map Credit cached))"
proof (cases "fresh \<noteq> [] \<and> cached \<noteq> []")
  case False
  then show ?thesis
    using assms by (auto simp: parity_diffs_def split: if_splits)
next
  case True
  from assms True obtain d3 d4 where
    d3: "(if differs (Saldo_Akhir (last fresh)) (Saldo_Akhir (last cached))
          then render2 LastSaldo (Saldo_Akhir (last fresh)) (Saldo_Akhir (last cached))
          else Inr []) = Inr d3"
    and d4: "bank_diffs accounts (last fresh) (last cached) = Inr d4"
    and ds: "ds = (if length fresh \<noteq> length cached
                   then [RowCount (length fresh) (length cached)] else [])
               @ (if differs (col_sum (map Credit fresh)) (col_sum (map Credit cached))
                  then [TotalCredit] else [])
               @ (if differs (col_sum (map Debit fresh)) (col_sum (map Debit cached))
                  then [TotalDebit] else [])
               @ d3 @ d4"
    by (auto simp: parity_diffs_def Let_def bind_Inr_iff)
  have 3: "TotalCredit \<notin> set d3"
    using d3 by (auto split: if_splits dest: render2_nonempty)
  have 4: "TotalCredit \<notin> set d4" using bank_diffs_no_total [OF d4] .
  show ?thesis
    unfolding ds using True 3 4 by auto
qed


lemma cash_101_diffs: "(case decode_rows sheet_header [cash_row 101] of
      Inl e \<Rightarrow> None
    | Inr df \<Rightarrow> Some (parity_diffs (renumber (recompute_all_balances df)) cached_cash))
   = Some (Inr [TotalCredit])"
  by code_simp

lemma cash_100_diffs: "(case decode_rows sheet_header [cash_row 100] of
      Inl e \<Rightarrow> None
    | Inr df \<Rightarrow> Some (parity_diffs (renumber (recompute_all_balances df)) cached_cash))
   = Some (Inr [])"
  by code_simp

lemma big_credit_diffs: "(case decode_rows sheet_header (tl big_credit_sheet) of
      Inl e \<Rightarrow> None
    | Inr df \<Rightarrow> Some (parity_diffs (renumber (recompute_all_balances df)) cached_big))
   = Some (Inr [TotalCredit])"
  by code_simp

lemma parse_nines_raises: "parse_amount_idr (CStr (replicate 400 (CHR ''9''))) = Inl OverflowError"
  using nines_huge by (simp add: parse_amount_idr_huge)

lemma long_credit_cell:
  "get_cell sheet_header long_credit_row ''Credit'' = CStr (replicate 400 (CHR ''9''))"
  by code_simp

lemma long_credit_decode: "decode_rows sheet_header [long_credit_row] = Inl OverflowError"
  by (simp add: decode_row_def bind_def long_credit_cell parse_nines_raises)

lemma cash_100_inf: "(case decode_rows sheet_header [cash_row 100] of
      Inl e \<Rightarrow> None
    | Inr df \<Rightarrow> Some (parity_diffs (renumber (recompute_all_balances df)) cached_inf))
   = Some (Inl OverflowError)"
  by code_simp

text \<open>
  C7, as the claim states it, fails: with a sheet that holds the header and no row, the fetch
  and the decoding succeed and the fresh snapshot has no row where the cached one has one,
  so the row counts differ; the verdict is Unknown, not Drift, and no error is recorded.
\<close>

theorem check_parity_empty_sheet:
  "decode_rows sheet_header [] = Inr []
   \<and> length (renumber (recompute_all_balances [])) \<noteq> length cached_cash
   \<and> check_parity_against_api (Inr [sheet_header]) cached_cash parity_ok
       = \<lparr>parity_state = Unknown, parity_details_last = AllMatch\<rparr>"
  by (simp add: check_parity_against_api_def parity_ok_def cached_cash_def renumber_def
      recompute_all_balances_def)


text \<open>
  C7, amended: a failed fetch, a cell that \<open>parse_amount_idr\<close> raises on, and an \<open>int\<close> that
  raises while a message is written, give Unknown with the error in the details; a grid of
  fewer than two rows gives Unknown and keeps the details. Otherwise the verdict is Drift
  exactly when the row counts differ or, both frames having rows, the credit sums, the debit
  sums, the last \<open>Saldo Akhir\<close> or the last balance of some account differ by more than
  \<open>1e-6\<close> (a fixed tolerance), and OK when none does; the details are then the diff lines,
  and \<open>Total Credit\<close> is among them exactly when the cache has rows and the credit sums
  differ.
\<close>

theorem check_parity_verdict:
  "(check_parity_against_api (Inl e) cached st
      = \<lparr>parity_state = Unknown, parity_details_last = Failure e\<rparr>)
   \<and> (length vals < 2 \<longrightarrow>
        check_parity_against_api (Inr vals) cached st = st\<lparr>parity_state := Unknown\<rparr>)
   \<and> (2 \<le> length vals \<and> decode_rows (hd vals) (tl vals) = Inl e \<longrightarrow>
        check_parity_against_api (Inr vals) cached st
          = \<lparr>parity_state = Unknown, parity_details_last = Failure e\<rparr>)
   \<and> (2 \<le> length vals \<and> decode_rows (hd vals) (tl vals) = Inr df
        \<and> parity_diffs (renumber (recompute_all_balances df)) cached = Inl e \<longrightarrow>
        check_parity_against_api (Inr vals) cached st
          = \<lparr>parity_state = Unknown, parity_details_last = Failure e\<rparr>)
   \<and> (2 \<le> length vals \<and> decode_rows (hd vals) (tl vals) = Inr df
        \<and> parity_diffs (renumber (recompute_all_balances df)) cached = Inr ds \<longrightarrow>
        parity_state (check_parity_against_api (Inr vals) cached st)
          = (if comparisons_differ (renumber (recompute_all_balances df)) cached then Drift else OK)
        \<and> parity_details_last (check_parity_against_api (Inr vals) cached st)
          = (if comparisons_differ (renumber (recompute_all_balances df)) cached
             then Diffs ds else AllMatch)
        \<and> (ds \<noteq> [] \<longleftrightarrow> comparisons_differ (renumber (recompute_all_balances df)) cached)
        \<and> (TotalCredit \<in> set ds \<longleftrightarrow>
             cached \<noteq> []
             \<and> differs (col_sum (map Credit (renumber (recompute_all_balances df))))
                        (col_sum (map Credit cached))))"
proof -
  have 1: "check_parity_against_api (Inl e) cached st
             = \<lparr>parity_state = Unknown, parity_details_last = Failure e\<rparr>"
    by (simp add: check_parity_against_api_def)
  have 2: "check_parity_against_api (Inr vals) cached st = st\<lparr>parity_state := Unknown\<rparr>"
    if "length vals < 2"
    using that by (simp add: check_parity_against_api_def)
  have 3: "check_parity_against_api (Inr vals) cached st
             = \<lparr>parity_state = Unknown, parity_details_last = Failure e\<rparr>"
    if "2 \<le> length vals" "decode_rows (hd vals) (tl vals) = Inl e"
    using that by (simp add: check_parity_against_api_def)
  have nonempty: "df \<noteq> []" if "2 \<le> length vals" "decode_rows (hd vals) (tl vals) = Inr df"
    using length_decode_rows [OF that(2)] that(1) by auto
  have 4: "check_parity_against_api (Inr vals) cached st
             = \<lparr>parity_state = Unknown, parity_details_last = Failure e\<rparr>"
    if "2 \<le> length vals" "decode_rows (hd vals) (tl vals) = Inr df"
      "parity_diffs (renumber (recompute_all_balances df)) cached = Inl e"
    using that nonempty by (simp add: check_parity_against_api_def)
  have 5: "parity_state (check_parity_against_api (Inr vals) cached st)
          = (if comparisons_differ (renumber (recompute_all_balances df)) cached then Drift else OK)
        \<and> parity_details_last (check_parity_against_api (Inr vals) cached st)
          = (if comparisons_differ (renumber (recompute_all_balances df)) cached
             then Diffs ds else AllMatch)
        \<and> (ds \<noteq> [] \<longleftrightarrow> comparisons_differ (renumber (recompute_all_balances df)) cached)
        \<and> (TotalCredit \<in> set ds \<longleftrightarrow>
             cached \<noteq> []
             \<and> differs (col_sum (map Credit (renumber (recompute_all_balances df))))
                        (col_sum (map Credit cached)))"
    if h: "2 \<le> length vals" "decode_rows (hd vals) (tl vals) = Inr df"
      "parity_diffs (renumber (recompute_all_balances df)) cached = Inr ds"
  proof -
    have "df \<noteq> []" using nonempty h by simp
    then have fresh: "renumber (recompute_all_balances df) \<noteq> []"
      by (cases df) (simp_all add: renumber_def recompute_all_balances_def Let_def)
    have c: "check_parity_against_api (Inr vals) cached st
               = (if ds \<noteq> [] then \<lparr>parity_state = Drift, parity_details_last = Diffs ds\<rparr>
                  else \<lparr>parity_state = OK, parity_details_last = AllMatch\<rparr>)"
      using h \<open>df \<noteq> []\<close> by (simp add: check_parity_against_api_def)
    show ?thesis
      unfolding c using parity_diffs_nonempty [OF h(3)] parity_diffs_total_credit [OF h(3)] fresh
      by auto
  qed
  from 1 2 3 4 5 show ?thesis by blast
qed

text \<open>
  C7 on the example sheet: a failed fetch, a sheet with the header only, a credit cell that
  cannot be normalised, a cached balance whose \<open>int\<close> raises, a credit that is one unit
  above the cached one, a sheet equal to the cache, and eight credits whose pairwise sum
  is six above the cached sum where their sum from the left is equal to it.
\<close>

theorem check_parity_verdict_witness:
  "check_parity_against_api (Inl (FetchError ''timeout'')) cached_cash parity_ok
     = \<lparr>parity_state = Unknown, parity_details_last = Failure (FetchError ''timeout'')\<rparr>
   \<and> check_parity_against_api (Inr [sheet_header]) cached_cash parity_ok
     = \<lparr>parity_state = Unknown, parity_details_last = AllMatch\<rparr>
   \<and> check_parity_against_api (Inr [sheet_header, long_credit_row]) cached_cash parity_ok
     = \<lparr>parity_state = Unknown, parity_details_last = Failure OverflowError\<rparr>
   \<and> check_parity_against_api (Inr [sheet_header, cash_row 100]) cached_inf parity_ok
     = \<lparr>parity_state = Unknown, parity_details_last = Failure OverflowError\<rparr>
   \<and> check_parity_against_api (Inr [sheet_header, cash_row 101]) cached_cash parity_ok
     = \<lparr>parity_state = Drift, parity_details_last = Diffs [TotalCredit]\<rparr>
   \<and> check_parity_against_api (Inr [sheet_header, cash_row 100]) cached_cash parity_ok
     = \<lparr>parity_state = OK, parity_details_last = AllMatch\<rparr>
   \<and> check_parity_against_api (Inr big_credit_sheet) cached_big parity_ok
     = \<lparr>parity_state = Drift, parity_details_last = Diffs [TotalCredit]\<rparr>"
proof -
  let ?e = "FetchError ''timeout''"
  obtain df8 where d8: "decode_rows sheet_header (tl big_credit_sheet) = Inr df8"
    and p8: "parity_diffs (renumber (recompute_all_balances df8)) cached_big = Inr [TotalCredit]"
    using big_credit_diffs by (auto split: sum.splits)
  have hd8: "hd big_credit_sheet = sheet_header" and len8: "\<not> length big_credit_sheet < 2"
    by (simp_all add: big_credit_sheet_def)
  obtain df1 where d1: "decode_rows sheet_header [cash_row 101] = Inr df1"
    and p1: "parity_diffs (renumber (recompute_all_balances df1)) cached_cash = Inr [TotalCredit]"
    using cash_101_diffs by (auto split: sum.splits)
  obtain df0 where d0: "decode_rows sheet_header [cash_row 100] = Inr df0"
    and p0: "parity_diffs (renumber (recompute_all_balances df0)) cached_cash = Inr []"
    using cash_100_diffs by (auto split: sum.splits)
  have pinf: "parity_diffs (renumber (recompute_all_balances df0)) cached_inf = Inl OverflowError"
    using cash_100_inf d0 by simp
  have a: "check_parity_against_api (Inl ?e) cached_cash parity_ok
             = \<lparr>parity_state = Unknown, parity_details_last = Failure ?e\<rparr>"
    using check_parity_verdict [of ?e cached_cash parity_ok "[]" "[]" "[]"] by simp
  have b: "check_parity_against_api (Inr [sheet_header]) cached_cash parity_ok
             = \<lparr>parity_state = Unknown, parity_details_last = AllMatch\<rparr>"
    using check_parity_verdict [of ?e cached_cash parity_ok "[sheet_header]" "[]" "[]"]
    by (simp add: parity_ok_def)
  have c: "check_parity_against_api (Inr [sheet_header, long_credit_row]) cached_cash parity_ok
             = \<lparr>parity_state = Unknown, parity_details_last = Failure OverflowError\<rparr>"
    using check_parity_verdict
      [of OverflowError cached_cash parity_ok "[sheet_header, long_credit_row]" "[]" "[]"]
      long_credit_decode
    by simp
  have d: "check_parity_against_api (Inr [sheet_header, cash_row 100]) cached_inf parity_ok
             = \<lparr>parity_state = Unknown, parity_details_last = Failure OverflowError\<rparr>"
    using check_parity_verdict
      [of OverflowError cached_inf parity_ok "[sheet_header, cash_row 100]" df0 "[]"] d0 pinf
    by simp
  have e: "check_parity_against_api (Inr [sheet_header, cash_row 101]) cached_cash parity_ok
             = \<lparr>parity_state = Drift, parity_details_last = Diffs [TotalCredit]\<rparr>"
    using check_parity_verdict
      [of ?e cached_cash parity_ok "[sheet_header, cash_row 101]" df1 "[TotalCredit]"] d1 p1
    by (simp add: parity.equality)
  have f: "check_parity_against_api (Inr [sheet_header, cash_row 100]) cached_cash parity_ok
             = \<lparr>parity_state = OK, parity_details_last = AllMatch\<rparr>"
    using check_parity_verdict
      [of ?e cached_cash parity_ok "[sheet_header, cash_row 100]" df0 "[]"] d0 p0
    by (simp add: parity.equality)
  have g: "check_parity_against_api (Inr big_credit_sheet) cached_big parity_ok
             = \<lparr>parity_state = Drift, parity_details_last = Diffs [TotalCredit]\<rparr>"
    using check_parity_verdict
      [of ?e cached_big parity_ok big_credit_sheet df8 "[TotalCredit]"] d8 p8 hd8 len8
    by (simp add: parity.equality)
  from a b c d e f g show ?thesis by blast
qed

section \<open>The snapshot written back and read again\<close>

subsection \<open>Integers that are doubles\<close>

text \<open>
  Rounding an integer to binary64 gives an integer that rounding leaves unchanged: below
  \<open>2 ^ 53\<close> the integer itself, above it a mantissa of 53 bits times a power of two.
\<close>

lemma bitlen_eqI:
  assumes "2 ^ j \<le> x" "x < 2 ^ Suc j"
  shows "bitlen x = Suc j"
proof -
  have xpos: "0 < x"
  proof -
    have "(0::int) < 2 ^ j" by simp
    then show ?thesis using assms(1) by linarith
  qed
  from bitlen_bounds [OF xpos] have lo: "2 ^ (bitlen x - 1) \<le> x" and hi: "x < 2 ^ bitlen x"
    by simp_all
  have "(2::int) ^ j < 2 ^ bitlen x" using assms(1) hi by linarith
  then have 1: "j < bitlen x" by (rule power_less_imp_less_exp [rotated]) simp
  have "(2::int) ^ (bitlen x - 1) < 2 ^ Suc j" using lo assms(2) by linarith
  then have 2: "bitlen x - 1 < Suc j" by (rule power_less_imp_less_exp [rotated]) simp
  from 1 2 show ?thesis by linarith
qed

lemma round_half_even_le: "x \<le> of_int z \<Longrightarrow> round_half_even x \<le> z"
proof -
  assume a: "x \<le> of_int z"
  show ?thesis
  proof (cases "x = of_int z")
    case True
    then show ?thesis by simp
  next
    case False
    with a have "x < of_int z" by simp
    then have "\<lfloor>x\<rfloor> < z" by (simp add: floor_less_iff)
    then show ?thesis by (simp add: round_half_even_def Let_def)
  qed
qed

text \<open>An integer that fits 53 bits after dropping its trailing zero bits is a double.\<close>

lemma double_of_rat_scaled:
  assumes j: "bitlen \<bar>z\<bar> = Suc (52 + k)" and dvd: "2 ^ k dvd z" and small: "\<bar>z\<bar> < 2 ^ 1024"
  shows "double_of_rat (of_int z) = Fin (of_int z)"
proof -
  define a where "a = \<bar>z\<bar>"
  have ja: "bitlen a = Suc (52 + k)" using j by (simp add: a_def)
  have apos: "0 < a" using ja by (cases "a \<le> 0") (simp_all add: bitlen_nonpos)
  then have znz: "z \<noteq> 0" by (auto simp: a_def)
  have abs_q: "\<bar>(of_int z :: rat)\<bar> = of_int a" by (simp add: a_def)
  have il: "ilog2 \<bar>(of_int z :: rat)\<bar> = int (52 + k)"
    unfolding abs_q by (simp add: ilog2_of_int [OF apos] ja)
  have mx: "max (int (52 + k)) (- 1022) = int (52 + k)" by simp
  have u: "pow2 (int (52 + k) - 52) = of_int (2 ^ k)"
    by (simp add: pow2_nonneg)
  from dvd obtain m where m: "z = 2 ^ k * m" by (auto simp: dvd_def)
  have quot: "(of_int z :: rat) / of_int (2 ^ k) = of_int m"
    by (simp add: m)
  have r: "of_int (round_half_even ((of_int z :: rat) / of_int (2 ^ k))) * of_int (2 ^ k)
             = (of_int z :: rat)"
    unfolding quot round_half_even_of_int by (simp add: m)
  have nover: "\<not> pow2 1024 \<le> \<bar>(of_int z :: rat)\<bar>"
  proof -
    have "a < 2 ^ 1024" using small by (simp only: a_def)
    then have "(of_int a :: rat) < of_int (2 ^ 1024)"
      unfolding of_int_less_iff .
    then show ?thesis unfolding abs_q by (simp add: pow2_nonneg)
  qed
  show ?thesis
    unfolding double_of_rat_def Let_def il mx u r
    using znz nover by simp
qed


lemma round_half_even_bounds:
  assumes lo: "2 ^ 52 * 2 ^ k \<le> \<bar>n\<bar>" and hi: "\<bar>n\<bar> < 2 ^ 53 * 2 ^ k"
  shows "2 ^ 52 \<le> \<bar>round_half_even ((of_int n :: rat) / of_int (2 ^ k))\<bar>
         \<and> \<bar>round_half_even ((of_int n :: rat) / of_int (2 ^ k))\<bar> \<le> 2 ^ 53"
proof -
  define m where "m = round_half_even ((of_int n :: rat) / of_int (2 ^ k))"
  define P where "P = (2::int) ^ k"
  define A where "A = (2::int) ^ 52"
  define B where "B = (2::int) ^ 53"
  have Ppos: "0 < P" and Apos: "0 < A" by (simp_all add: P_def A_def)
  have pk: "(0::rat) < of_int P" using Ppos by simp
  have lo': "A * P \<le> \<bar>n\<bar>" and hi': "\<bar>n\<bar> < B * P"
    using lo hi by (simp_all only: A_def B_def P_def)
  have m': "m = round_half_even ((of_int n :: rat) / of_int P)" by (simp only: m_def P_def)
  have "A \<le> \<bar>m\<bar> \<and> \<bar>m\<bar> \<le> B"
  proof (cases "0 \<le> n")
    case True
    have "(of_int (A * P) :: rat) \<le> of_int n"
      using lo' True unfolding of_int_le_iff by simp
    then have "(of_int A :: rat) \<le> of_int n / of_int P"
      using pk by (simp add: pos_le_divide_eq)
    then have 1: "A \<le> m" unfolding m' by (rule round_half_even_ge)
    have "(of_int n :: rat) \<le> of_int (B * P)"
      using hi' True unfolding of_int_le_iff by simp
    then have "(of_int n :: rat) / of_int P \<le> of_int B"
      using pk by (simp add: pos_divide_le_eq)
    then have 2: "m \<le> B" unfolding m' by (rule round_half_even_le)
    from 1 2 Apos show ?thesis by linarith
  next
    case False
    have "(of_int (A * P) :: rat) \<le> of_int (- n)"
      using lo' False unfolding of_int_le_iff by simp
    then have "(of_int n :: rat) / of_int P \<le> of_int (- A)"
      using pk by (simp add: pos_divide_le_eq)
    then have 1: "m \<le> - A" unfolding m' by (rule round_half_even_le)
    have "(of_int (- n) :: rat) \<le> of_int (B * P)"
      using hi' False unfolding of_int_le_iff by simp
    then have "(of_int (- B) :: rat) \<le> of_int n / of_int P"
      using pk by (simp add: pos_le_divide_eq)
    then have 2: "- B \<le> m" unfolding m' by (rule round_half_even_ge)
    from 1 2 Apos show ?thesis by linarith
  qed
  then show ?thesis by (simp only: m_def A_def B_def)
qed


lemma double_of_rat_mantissa:
  assumes lo: "2 ^ 52 \<le> \<bar>m\<bar>" and hi: "\<bar>m\<bar> \<le> 2 ^ 53" and small: "\<bar>m * 2 ^ k\<bar> < 2 ^ 1024"
  shows "double_of_rat (of_int (m * 2 ^ k)) = Fin (of_int (m * 2 ^ k))"
proof -
  define z where "z = m * 2 ^ k"
  have absz: "\<bar>z\<bar> = \<bar>m\<bar> * 2 ^ k" by (simp add: z_def abs_mult)
  have p2: "(0::int) < 2 ^ k" by simp
  have small': "\<bar>z\<bar> < 2 ^ 1024" using small by (simp only: z_def)
  have "double_of_rat (of_int z) = Fin (of_int z)"
  proof (cases "\<bar>m\<bar> < 2 ^ 53")
    case True
    have "(2::int) ^ (52 + k) = 2 ^ 52 * 2 ^ k" by (simp only: power_add)
    also have "\<dots> \<le> \<bar>m\<bar> * 2 ^ k"
      using lo p2 by (rule mult_right_mono [OF _ less_imp_le])
    finally have 1: "2 ^ (52 + k) \<le> \<bar>z\<bar>" by (simp only: absz)
    have "\<bar>m\<bar> * 2 ^ k < 2 ^ 53 * 2 ^ k"
      using True p2 by (rule mult_strict_right_mono)
    also have "\<dots> = (2::int) ^ (53 + k)" by (simp only: power_add)
    also have "\<dots> = (2::int) ^ Suc (52 + k)" by simp
    finally have 2: "\<bar>z\<bar> < 2 ^ Suc (52 + k)" by (simp only: absz)
    have "bitlen \<bar>z\<bar> = Suc (52 + k)" using 1 2 by (rule bitlen_eqI)
    moreover have "2 ^ k dvd z" by (simp add: z_def)
    ultimately show ?thesis using small' by (rule double_of_rat_scaled)
  next
    case False
    with hi have "\<bar>m\<bar> = 2 ^ 53" by linarith
    then have "\<bar>z\<bar> = 2 ^ 53 * 2 ^ k" by (simp only: absz)
    also have "\<dots> = (2::int) ^ (53 + k)" by (simp only: power_add)
    also have "\<dots> = (2::int) ^ (52 + Suc k)" by simp
    finally have az: "\<bar>z\<bar> = 2 ^ (52 + Suc k)" .
    have 1: "2 ^ (52 + Suc k) \<le> \<bar>z\<bar>" by (simp only: az order_refl)
    have "(2::int) ^ (52 + Suc k) < 2 ^ Suc (52 + Suc k)"
      by (rule power_strict_increasing) simp_all
    then have 2: "\<bar>z\<bar> < 2 ^ Suc (52 + Suc k)" by (simp only: az)
    have "bitlen \<bar>z\<bar> = Suc (52 + Suc k)" using 1 2 by (rule bitlen_eqI)
    moreover have "2 ^ Suc k dvd z"
    proof -
      have "(2::int) ^ Suc k dvd 2 ^ (52 + Suc k)" by (rule le_imp_power_dvd) simp
      then have "2 ^ Suc k dvd \<bar>z\<bar>" by (simp only: az)
      then show ?thesis by simp
    qed
    ultimately show ?thesis using small' by (rule double_of_rat_scaled)
  qed
  then show ?thesis by (simp only: z_def)
qed


text \<open>The result of converting an integer to a float is an integer that is a double.\<close>

lemma double_of_rat_int_fixed:
  assumes "double_of_rat (of_int n) = Fin r"
  shows "\<exists>z. r = of_int z \<and> double_of_rat (of_int z) = Fin (of_int z)"
proof (cases "\<bar>n\<bar> < 2 ^ 53")
  case True
  from double_of_rat_int [OF True] assms have "r = of_int n" by simp
  with double_of_rat_int [OF True] show ?thesis by blast
next
  case False
  define a where "a = \<bar>n\<bar>"
  have a53: "2 ^ 53 \<le> a" using False by (simp only: a_def not_less)
  have apos: "0 < a"
  proof -
    have "(0::int) < 2 ^ 53" by simp
    then show ?thesis using a53 by linarith
  qed
  have nnz: "n \<noteq> 0" using apos by (auto simp: a_def)
  from bitlen_bounds [OF apos] have lo: "2 ^ (bitlen a - 1) \<le> a" and hi: "a < 2 ^ bitlen a"
    by simp_all
  have "(2::int) ^ 53 < 2 ^ bitlen a" using a53 hi by linarith
  then have "53 < bitlen a" by (rule power_less_imp_less_exp [rotated]) simp
  then have "\<exists>k. bitlen a = Suc (52 + k)" by presburger
  then obtain k where bl: "bitlen a = Suc (52 + k)" ..
  have "2 ^ (52 + k) \<le> a" using lo by (simp only: bl diff_Suc_1)
  then have lo': "2 ^ 52 * 2 ^ k \<le> \<bar>n\<bar>" by (simp only: power_add a_def)
  have "(2::int) ^ Suc (52 + k) = 2 ^ (53 + k)" by simp
  also have "\<dots> = 2 ^ 53 * 2 ^ k" by (simp only: power_add)
  finally have "a < 2 ^ 53 * 2 ^ k" using hi by (simp only: bl)
  then have hi': "\<bar>n\<bar> < 2 ^ 53 * 2 ^ k" by (simp only: a_def)
  have abs_q: "\<bar>(of_int n :: rat)\<bar> = of_int a" by (simp add: a_def)
  have il: "ilog2 \<bar>(of_int n :: rat)\<bar> = int (52 + k)"
    unfolding abs_q by (simp add: ilog2_of_int [OF apos] bl)
  have mx: "max (int (52 + k)) (- 1022) = int (52 + k)" by simp
  have u: "pow2 (int (52 + k) - 52) = of_int (2 ^ k)"
    by (simp add: pow2_nonneg)
  define m where "m = round_half_even ((of_int n :: rat) / of_int (2 ^ k))"
  have rz: "(of_int m :: rat) * of_int (2 ^ k) = of_int (m * 2 ^ k)" by simp
  from assms have res:
    "(if pow2 1024 \<le> \<bar>(of_int (m * 2 ^ k) :: rat)\<bar>
      then (if 0 < (of_int n :: rat) then PInf else NInf)
      else Fin (of_int (m * 2 ^ k))) = Fin r"
    unfolding double_of_rat_def Let_def il mx u m_def [symmetric] rz using nnz by simp
  have nover: "\<not> pow2 1024 \<le> \<bar>(of_int (m * 2 ^ k) :: rat)\<bar>"
    using res by (auto split: if_splits)
  have r: "r = of_int (m * 2 ^ k)"
    using res nover by (simp only: if_False pyfloat.inject)
  have small: "\<bar>m * 2 ^ k\<bar> < 2 ^ 1024"
  proof -
    have "(of_int \<bar>m * 2 ^ k\<bar> :: rat) < of_int (2 ^ 1024)"
      using nover by (simp add: pow2_nonneg)
    then show ?thesis unfolding of_int_less_iff .
  qed
  from round_half_even_bounds [OF lo' hi']
  have "2 ^ 52 \<le> \<bar>m\<bar>" "\<bar>m\<bar> \<le> 2 ^ 53" by (simp_all only: m_def)
  then have "double_of_rat (of_int (m * 2 ^ k)) = Fin (of_int (m * 2 ^ k))"
    using small by (rule double_of_rat_mantissa)
  with r show ?thesis by blast
qed


subsection \<open>The rows of a record under the header row\<close>

text \<open>Under the header row \<open>HEADERS\<close>, \<open>get_cell\<close> finds every column of a written row.\<close>

lemma idx_get_HEADERS:
  "idx_get (map CStr HEADERS) ''No.'' = Some 0"
  "idx_get (map CStr HEADERS) ''Tanggal'' = Some 1"
  "idx_get (map CStr HEADERS) ''User ID'' = Some 2"
  "idx_get (map CStr HEADERS) ''Bank/EWallet'' = Some 3"
  "idx_get (map CStr HEADERS) ''Keterangan'' = Some 4"
  "idx_get (map CStr HEADERS) ''Credit'' = Some 5"
  "idx_get (map CStr HEADERS) ''Debit'' = Some 6"
  "idx_get (map CStr HEADERS) ''Saldo Akhir'' = Some 7"
  by code_simp+

lemma idx_get_HEADERS_banks:
  "idx_get (map CStr HEADERS) ''BCA'' = Some 8"
  "idx_get (map CStr HEADERS) ''Mandiri'' = Some 9"
  "idx_get (map CStr HEADERS) ''BNI'' = Some 10"
  "idx_get (map CStr HEADERS) ''BRI'' = Some 11"
  "idx_get (map CStr HEADERS) ''Cimb Niaga'' = Some 12"
  "idx_get (map CStr HEADERS) ''BTN'' = Some 13"
  "idx_get (map CStr HEADERS) ''Danamon'' = Some 14"
  "idx_get (map CStr HEADERS) ''DANA'' = Some 15"
  "idx_get (map CStr HEADERS) ''OVO'' = Some 16"
  "idx_get (map CStr HEADERS) ''GOPAY'' = Some 17"
  "idx_get (map CStr HEADERS) ''LINK AJA'' = Some 18"
  by code_simp+

lemma length_row_values [simp]: "length (row_values r) = 19"
  by (simp add: row_values_def accounts_def)

lemma get_cell_row_values:
  "get_cell (map CStr HEADERS) (row_values r) ''No.'' = No r"
  "get_cell (map CStr HEADERS) (row_values r) ''Tanggal'' = Tanggal r"
  "get_cell (map CStr HEADERS) (row_values r) ''User ID'' = User_ID r"
  "get_cell (map CStr HEADERS) (row_values r) ''Bank/EWallet'' = Bank_EWallet r"
  "get_cell (map CStr HEADERS) (row_values r) ''Keterangan'' = Keterangan r"
  "get_cell (map CStr HEADERS) (row_values r) ''Credit'' = CFloat (Credit r)"
  "get_cell (map CStr HEADERS) (row_values r) ''Debit'' = CFloat (Debit r)"
  "get_cell (map CStr HEADERS) (row_values r) ''Saldo Akhir'' = CFloat (Saldo_Akhir r)"
  by (simp_all add: get_cell_def cell_at_def idx_get_HEADERS) (simp_all add: row_values_def)

lemma get_cell_row_values_bank:
  "get_cell (map CStr HEADERS) (row_values r) (bank_name b) = CFloat (Bal r b)"
  by (cases b)
    (simp_all add: get_cell_def cell_at_def idx_get_HEADERS_banks, simp_all add: row_values_def accounts_def)


subsection \<open>Whole amounts are kept by the recompute\<close>

text \<open>
  \<open>parse_amount_idr\<close> returns whole amounts that are doubles; sums and differences of
  such amounts are again such amounts, or not finite. So every finite amount of a decoded
  and recomputed frame is one that \<open>parse_amount_idr\<close> returns unchanged.
\<close>

lemma amount_iff:
  "amount v \<longleftrightarrow> (\<exists>z. v = Fin (of_int z) \<and> double_of_rat (of_int z) = Fin (of_int z))"
proof (cases v)
  case (Fin q)
  show ?thesis
  proof
    assume "amount v"
    with Fin have "q = of_int \<lfloor>q\<rfloor>" "double_of_rat q = Fin q" by (simp_all add: amount_def)
    then have "v = Fin (of_int \<lfloor>q\<rfloor>) \<and> double_of_rat (of_int \<lfloor>q\<rfloor>) = Fin (of_int \<lfloor>q\<rfloor>)"
      using Fin by simp
    then show "\<exists>z. v = Fin (of_int z) \<and> double_of_rat (of_int z) = Fin (of_int z)" ..
  next
    assume "\<exists>z. v = Fin (of_int z) \<and> double_of_rat (of_int z) = Fin (of_int z)"
    then show "amount v" by (auto simp: amount_def)
  qed
qed (simp_all add: amount_def)

lemma whole_iff: "whole v \<longleftrightarrow> (\<exists>z. v = Fin (of_int z)) \<or> \<not> is_finite v"
proof (cases v)
  case (Fin q)
  show ?thesis
  proof
    assume "whole v"
    with Fin have "v = Fin (of_int \<lfloor>q\<rfloor>)" by (simp add: whole_def)
    then show "(\<exists>z. v = Fin (of_int z)) \<or> \<not> is_finite v" by blast
  next
    assume "(\<exists>z. v = Fin (of_int z)) \<or> \<not> is_finite v"
    with Fin show "whole v" by (auto simp: whole_def is_finite_def)
  qed
qed (simp_all add: whole_def is_finite_def)

lemma amount_whole: "amount v \<Longrightarrow> whole v"
  by (auto simp: amount_iff whole_iff)

lemma amount_0 [simp]: "amount (Fin 0)"
  unfolding amount_iff by (rule exI [of _ 0]) (simp add: double_of_rat_def)

lemma double_of_rat_int_amount: "double_of_rat (of_int i) = Fin r \<Longrightarrow> amount (Fin r)"
  using double_of_rat_int_fixed [of i r] by (auto simp: amount_iff)

lemma float_of_int_amount:
  assumes "float_of_int i = Inr v"
  shows "amount v"
proof (cases "double_of_rat (of_int i)")
  case (Fin r)
  with assms have "v = Fin r" by (simp add: float_of_int_def)
  with double_of_rat_int_amount [OF Fin] show ?thesis by simp
qed (use assms in \<open>simp_all add: float_of_int_def\<close>)

lemma round_amount_amount: "round_amount val = Inr v \<Longrightarrow> amount v"
  by (auto simp: round_amount_def idr_decimals_def split: sum.splits dest: float_of_int_amount)

lemma parse_amount_idr_amount: "parse_amount_idr c = Inr v \<Longrightarrow> amount v"
  by (cases c)
    (auto simp: parse_amount_idr_def parse_text_def Let_def
      split: sum.splits if_splits dest: round_amount_amount)

lemma round_amount_fixed: "amount v \<Longrightarrow> round_amount v = Inr v"
  by (auto simp: amount_iff round_amount_def idr_decimals_def py_round_def float_of_int_def)

lemma whole_fneg: "whole v \<Longrightarrow> whole (fneg v)"
proof (cases v)
  case (Fin q)
  assume "whole v"
  with Fin obtain z where "q = of_int z" by (auto simp: whole_iff is_finite_def)
  then have "fneg v = Fin (of_int (- z))" using Fin by (simp add: fneg_def)
  then show ?thesis unfolding whole_iff by blast
qed (simp_all add: whole_iff fneg_def is_finite_def)

lemma fadd_whole:
  assumes "whole x" "whole y"
  shows "amount (fadd x y) \<or> \<not> is_finite (fadd x y)"
proof (cases "is_finite x \<and> is_finite y")
  case True
  with assms obtain a b where x: "x = Fin (of_int a)" and y: "y = Fin (of_int b)"
    by (auto simp: whole_iff)
  have f: "fadd x y = double_of_rat (of_int (a + b))" by (simp add: x y)
  show ?thesis
  proof (cases "double_of_rat (of_int (a + b))")
    case (Fin r)
    from double_of_rat_int_amount [OF Fin] show ?thesis by (simp only: f Fin) simp
  qed (simp_all only: f, simp_all add: is_finite_def)
next
  case False
  then have "\<not> is_finite (fadd x y)"
    by (cases x; cases y) (simp_all add: is_finite_def)
  then show ?thesis ..
qed

lemma sound_whole: "sound v \<Longrightarrow> whole v"
  by (auto simp: sound_def whole_iff amount_iff)

lemma sound_fadd: "sound x \<Longrightarrow> sound y \<Longrightarrow> sound (fadd x y)"
  using fadd_whole [of x y] by (simp add: sound_def sound_whole)

lemma sound_fsub: "sound x \<Longrightarrow> sound y \<Longrightarrow> sound (fsub x y)"
  unfolding fsub_def using fadd_whole [of x "fneg y"]
  by (simp add: sound_def sound_whole whole_fneg)

lemma sound_0 [simp]: "sound (Fin 0)"
  by (simp add: sound_def)

lemma sound_foldl_fadd: "sound acc \<Longrightarrow> list_all sound xs \<Longrightarrow> sound (foldl fadd acc xs)"
  by (induction xs arbitrary: acc) (simp_all add: sound_fadd)

lemma sound_py_sum: "list_all sound xs \<Longrightarrow> sound (py_sum xs)"
  by (simp add: py_sum_def sound_foldl_fadd)


lemma sound_row_iff:
  "sound_row r \<longleftrightarrow> sound (Credit r) \<and> sound (Debit r) \<and> sound (Saldo_Akhir r) \<and> (\<forall>b. sound (Bal r b))"
  using accounts_complete by (auto simp: sound_row_def list_all_iff)

lemma sound_step:
  assumes "\<And>b. sound (running b)" "sound_row r"
  shows "sound (step running r b)"
proof (cases "is_system_init r")
  case True
  then have "step running r b = (if notna (Bal r b) then Bal r b else Fin 0)"
    by (simp add: step_def fold_fun_upd accounts_complete Let_def)
  then show ?thesis using assms(2) by (simp add: sound_row_iff)
next
  case False
  show ?thesis
  proof (cases "row_account r")
    case None
    with False show ?thesis using assms(1) by (simp add: step_def)
  next
    case (Some a)
    have "sound (fadd (running a) (fsub (Credit r) (Debit r)))"
      using assms by (simp add: sound_fadd sound_fsub sound_row_iff)
    with False Some show ?thesis using assms(1) by (simp add: step_def)
  qed
qed

lemma sound_emit:
  assumes "\<And>b. sound (running b)" "sound_row r"
  shows "sound_row (emit running r)"
  using assms by (simp add: emit_eq sound_row_iff sound_py_sum list_all_iff)

lemma sound_recompute_loop:
  "(\<And>b. sound (running b)) \<Longrightarrow> list_all sound_row df
     \<Longrightarrow> list_all sound_row (recompute_loop running df)"
  by (induction df arbitrary: running) (simp_all add: Let_def sound_step sound_emit)

lemma sound_recompute:
  "list_all sound_row df \<Longrightarrow> list_all sound_row (recompute_all_balances df)"
  by (simp add: recompute_all_balances_def sound_recompute_loop running0_def)

lemma sound_row_No [simp]: "sound_row (r\<lparr>No := x\<rparr>) = sound_row r"
  by (simp add: sound_row_iff)

lemma sound_renumber: "list_all sound_row df \<Longrightarrow> list_all sound_row (renumber df)"
  by (auto simp: renumber_def list_all_iff in_set_enumerate_eq)

lemma parse_banks_sound:
  "parse_banks header r bs bal = Inr bal' \<Longrightarrow> (\<And>b. sound (bal b)) \<Longrightarrow> sound (bal' b)"
proof (induction bs arbitrary: bal)
  case Nil
  then show ?case by simp
next
  case (Cons a bs)
  from Cons.prems(1) obtain v where
    v: "parse_amount_idr (get_cell header r (bank_name a)) = Inr v"
    and rest: "parse_banks header r bs (bal(a := v)) = Inr bal'"
    by (auto simp: bind_Inr_iff)
  have "sound v" using parse_amount_idr_amount [OF v] by (simp add: sound_def)
  then have "\<And>b. sound ((bal(a := v)) b)" using Cons.prems(2) by simp
  from Cons.IH [OF rest this] show ?case .
qed

lemma decode_row_sound: "decode_row header r = Inr item \<Longrightarrow> sound_row item"
  by (auto simp: decode_row_def bind_Inr_iff sound_row_iff running0_def sound_def
      dest: parse_amount_idr_amount parse_banks_sound [where bal = "\<lambda>b. Fin 0", simplified sound_def])

lemma decode_rows_sound: "decode_rows header rows = Inr df \<Longrightarrow> list_all sound_row df"
  by (induction rows arbitrary: df) (auto simp: bind_Inr_iff dest: decode_row_sound)


subsection \<open>Reading the written rows\<close>

text \<open>A written row is decoded to the record it was written from.\<close>

lemma parse_CFloat_amount: "amount v \<Longrightarrow> parse_amount_idr (CFloat v) = Inr v"
  by (simp add: parse_amount_idr_def round_amount_fixed)

lemma sound_finite_amount: "sound v \<Longrightarrow> is_finite v \<Longrightarrow> amount v"
  by (auto simp: sound_def)

lemma storable_amounts:
  assumes "sound_row r" "storable r"
  shows "amount (Credit r)" "amount (Debit r)" "amount (Saldo_Akhir r)" "amount (Bal r b)"
  using assms accounts_complete [of b]
  by (auto simp: sound_row_iff storable_def list_all_iff intro: sound_finite_amount)

lemma parse_banks_row_values:
  assumes "\<And>b. amount (Bal r b)"
  shows "parse_banks (map CStr HEADERS) (row_values r) bs bal
           = Inr (\<lambda>b. if b \<in> set bs then Bal r b else bal b)"
proof (induction bs arbitrary: bal)
  case Nil
  then show ?case by simp
next
  case (Cons a bs)
  have "(\<lambda>b. if b \<in> set bs then Bal r b else (bal(a := Bal r a)) b)
          = (\<lambda>b. if b \<in> set (a # bs) then Bal r b else bal b)"
    by (auto simp: fun_eq_iff)
  then show ?case
    by (simp add: bind_def get_cell_row_values_bank parse_CFloat_amount assms Cons.IH)
qed

lemma decode_row_row_values:
  assumes "sound_row r" "storable r" "No r = CInt i"
  shows "decode_row (map CStr HEADERS) (row_values r) = Inr r"
proof -
  have "parse_banks (map CStr HEADERS) (row_values r) accounts running0 = Inr (Bal r)"
    using storable_amounts(4) [OF assms(1,2)]
    by (simp add: parse_banks_row_values accounts_complete)
  then show ?thesis
    using storable_amounts(1-3) [OF assms(1,2)] assms(3)
    by (simp add: decode_row_def bind_def get_cell_row_values parse_CFloat_amount coerce_no_def)
qed

lemma decode_rows_row_values:
  assumes "list_all (\<lambda>r. sound_row r \<and> storable r \<and> (\<exists>i. No r = CInt i)) snapshot"
  shows "decode_rows (map CStr HEADERS) (map row_values snapshot) = Inr snapshot"
  using assms by (induction snapshot) (auto simp: bind_def decode_row_row_values)

lemma No_renumber: "r \<in> set (renumber df) \<Longrightarrow> \<exists>i. No r = CInt i"
  by (auto simp: renumber_def in_set_enumerate_eq)

lemma get_all_data_frame:
  "fst (get_all_data cksum (Inr vals) lc) = []
   \<or> (\<exists>df. decode_rows (hd vals) (tl vals) = Inr df
         \<and> fst (get_all_data cksum (Inr vals) lc) = renumber (recompute_all_balances df))"
  by (auto simp: get_all_data_def split: sum.splits)

lemma renumber_Nil_iff [simp]: "renumber df = [] \<longleftrightarrow> df = []"
  by (cases df) (simp_all add: renumber_def)

text \<open>
  Through the store: when the snapshot that \<open>get_all_data\<close> returns is written back, which
  needs every amount of it to be finite, reading the written rows returns the same snapshot.
\<close>

lemma get_all_data_materialize:
  assumes "materialize (fst (get_all_data cksum (Inr vals) lc)) = Some vals'"
  shows "fst (get_all_data cksum' (Inr vals') lc') = fst (get_all_data cksum (Inr vals) lc)"
proof -
  define snapshot where "snapshot = fst (get_all_data cksum (Inr vals) lc)"
  from assms have st: "list_all storable snapshot"
    and vals': "vals' = map CStr HEADERS # map row_values snapshot"
    by (auto simp: materialize_def snapshot_def split: if_splits)
  show ?thesis
  proof (cases "snapshot = []")
    case True
    then have "fst (get_all_data cksum' (Inr vals') lc') = []"
      by (simp add: vals' get_all_data_def)
    with True show ?thesis by (simp add: snapshot_def)
  next
    case False
    with get_all_data_frame [of cksum vals lc] obtain df where
      df: "decode_rows (hd vals) (tl vals) = Inr df"
      and snap: "snapshot = renumber (recompute_all_balances df)"
      by (auto simp: snapshot_def)
    have "list_all sound_row snapshot"
      unfolding snap by (intro sound_renumber sound_recompute decode_rows_sound [OF df])
    moreover have "\<forall>r \<in> set snapshot. \<exists>i. No r = CInt i"
      unfolding snap by (auto dest: No_renumber)
    ultimately have "list_all (\<lambda>r. sound_row r \<and> storable r \<and> (\<exists>i. No r = CInt i)) snapshot"
      using st by (auto simp: list_all_iff)
    then have dec: "decode_rows (map CStr HEADERS) (map row_values snapshot) = Inr snapshot"
      by (rule decode_rows_row_values)
    have again: "renumber (recompute_all_balances snapshot) = snapshot"
      unfolding snap
      by (simp add: recompute_all_balances_def recompute_loop_idem
        recompute_renumber [unfolded recompute_all_balances_def] renumber_idem)
    have "2 \<le> length vals'" using False by (cases snapshot) (simp_all add: vals')
    then have "fst (get_all_data cksum' (Inr vals') lc') = snapshot"
      using False dec again by (simp add: get_all_data_def vals')
    then show ?thesis by (simp add: snapshot_def)
  qed
qed

lemma written_bca_rows:
  "materialize (fst (get_all_data (\<lambda>vals. []) (Inr bca_sheet) None))
     = Some written_bca"
  by code_simp

text \<open>
  C3: recomputing the output of a recompute gives the same snapshot. The emitted records
  have the columns of the store's schema (\<open>HEADERS\<close>), so on frames the rows written
  back are the records themselves: \<open>recompute_all_balances\<close> applied to its own output
  returns it unchanged, and so does the renumbered snapshot that \<open>get_all_data\<close> keeps.
  Through the store, when the snapshot is written back as rows under the header row
  (\<open>materialize\<close>), reading the written rows returns the same snapshot.
\<close>

theorem recompute_idempotent:
  "recompute_all_balances (recompute_all_balances df) = recompute_all_balances df
   \<and> renumber (recompute_all_balances (renumber (recompute_all_balances df)))
       = renumber (recompute_all_balances df)
   \<and> (materialize (fst (get_all_data cksum (Inr vals) lc)) = Some vals'
        \<longrightarrow> fst (get_all_data cksum' (Inr vals') lc') = fst (get_all_data cksum (Inr vals) lc))"
proof (intro conjI impI)
  show "recompute_all_balances (recompute_all_balances df) = recompute_all_balances df"
    by (simp add: recompute_all_balances_def recompute_loop_idem)
  show "renumber (recompute_all_balances (renumber (recompute_all_balances df)))
          = renumber (recompute_all_balances df)"
    by (simp add: recompute_all_balances_def recompute_loop_idem
        recompute_renumber [unfolded recompute_all_balances_def] renumber_idem)
  show "fst (get_all_data cksum' (Inr vals') lc') = fst (get_all_data cksum (Inr vals) lc)"
    if "materialize (fst (get_all_data cksum (Inr vals) lc)) = Some vals'"
    using that by (rule get_all_data_materialize)
qed

text \<open>A sheet of one row with a credit of 1500 on BCA is written back and read again.\<close>

theorem recompute_idempotent_witness:
  "materialize (fst (get_all_data (\<lambda>vals. []) (Inr bca_sheet) None))
     = Some written_bca
   \<and> fst (get_all_data (\<lambda>vals. []) (Inr written_bca) None)
       = fst (get_all_data (\<lambda>vals. []) (Inr bca_sheet) None)
   \<and> length (fst (get_all_data (\<lambda>vals. []) (Inr written_bca) None)) = 1"
proof -
  have l: "length (fst (get_all_data (\<lambda>vals. []) (Inr written_bca) None)) = 1"
    by code_simp
  from recompute_idempotent
    [of _ "\<lambda>vals. []" bca_sheet None written_bca "\<lambda>vals. []" None]
  have "fst (get_all_data (\<lambda>vals. []) (Inr written_bca) None)
          = fst (get_all_data (\<lambda>vals. []) (Inr bca_sheet) None)"
    using written_bca_rows by simp
  with written_bca_rows l show ?thesis by simp
qed

end
